theory Spec2Isabelle
  imports Complex_Main
begin

section \<open>Python values used by the script\<close>

text \<open>
  Python floats are IEEE 754 binary64 numbers. A finite double is represented by the
  rational it denotes, the two infinities and NaN are separate values. The two signed
  zeros are identified: the script only adds, subtracts, compares and divides, and
  these do not tell them apart (division by either zero raises).
\<close>

datatype double = Fin rat | PInf | NInf | NaN

datatype py_error = OverflowError | IndexError | ZeroDivisionError | TypeError

datatype pyval =
    PyInt int
  | PyFloat double
  | PyStr string
  | PyBool bool
  | PyNone
  | PyList "pyval list"

type_synonym kwargs = "(string \<times> pyval) list"

subsection \<open>Rounding to binary64\<close>

definition pow2 :: "int \<Rightarrow> rat" where
  "pow2 k = (if 0 \<le> k then 2 ^ nat k else 1 / 2 ^ nat (- k))"

text \<open>The number of binary digits of a positive integer.\<close>

function bit_length :: "int \<Rightarrow> int" where
  "bit_length a = (if a \<le> 0 then 0 else 1 + bit_length (a div 2))"
  by pat_completeness auto
termination
  by (relation "measure nat") auto

declare bit_length.simps [simp del]

text \<open>\<open>floor_log2 q\<close> is the exponent \<open>e\<close> with \<open>2^e \<le> |q| < 2^(e+1)\<close>, computed from
  the bit lengths of numerator and denominator.\<close>

definition floor_log2 :: "rat \<Rightarrow> int" where
  "floor_log2 q =
     (let (a, b) = quotient_of \<bar>q\<bar>;
          c = bit_length a - bit_length b
      in if pow2 c \<le> \<bar>q\<bar> then c else c - 1)"

definition round_half_even :: "rat \<Rightarrow> int" where
  "round_half_even r =
     (let f = \<lfloor>r\<rfloor>; d = r - of_int f
      in if d < 1 / 2 then f else if 1 / 2 < d then f + 1
         else if even f then f else f + 1)"

text \<open>Round to nearest, ties to even, with a 53-bit significand, gradual underflow
  below \<open>2^-1022\<close> (unit \<open>2^-1074\<close>) and overflow to infinity from \<open>2^1024\<close> on.\<close>

definition round_to_double :: "rat \<Rightarrow> double" where
  "round_to_double q =
     (if q = 0 then Fin 0
      else let u = pow2 (max (floor_log2 q - 52) (- 1074));
               r = of_int (round_half_even (q / u)) * u
           in if 2 ^ 1024 \<le> r then PInf
              else if r \<le> - (2 ^ 1024) then NInf
              else Fin r)"

text \<open>The unit in the last place used for rounding \<open>q\<close>, and its exponent.\<close>

definition ulp_exp :: "rat \<Rightarrow> int" where
  "ulp_exp q = max (floor_log2 q - 52) (- 1074)"

definition ulp_of :: "rat \<Rightarrow> rat" where
  "ulp_of q = pow2 (max (floor_log2 q - 52) (- 1074))"

text \<open>A float literal of the source denotes the double nearest to its decimal value.\<close>

definition float_lit :: "rat \<Rightarrow> double" where
  "float_lit q = round_to_double q"

fun fneg :: "double \<Rightarrow> double" where
  "fneg (Fin a) = Fin (- a)"
| "fneg PInf = NInf"
| "fneg NInf = PInf"
| "fneg NaN = NaN"

fun fadd :: "double \<Rightarrow> double \<Rightarrow> double" where
  "fadd (Fin a) (Fin b) = round_to_double (a + b)"
| "fadd NaN _ = NaN"
| "fadd _ NaN = NaN"
| "fadd PInf NInf = NaN"
| "fadd NInf PInf = NaN"
| "fadd PInf _ = PInf"
| "fadd NInf _ = NInf"
| "fadd _ PInf = PInf"
| "fadd _ NInf = NInf"

definition fsub :: "double \<Rightarrow> double \<Rightarrow> double" where
  "fsub a b = fadd a (fneg b)"

fun fabs :: "double \<Rightarrow> double" where
  "fabs (Fin a) = Fin \<bar>a\<bar>"
| "fabs PInf = PInf"
| "fabs NInf = PInf"
| "fabs NaN = NaN"

fun is_inf :: "double \<Rightarrow> bool" where
  "is_inf PInf = True"
| "is_inf NInf = True"
| "is_inf _ = False"

fun fsign :: "double \<Rightarrow> rat" where
  "fsign (Fin a) = sgn a"
| "fsign PInf = 1"
| "fsign NInf = - 1"
| "fsign NaN = 0"

definition signed_inf :: "rat \<Rightarrow> double" where
  "signed_inf s = (if 0 < s then PInf else NInf)"

text \<open>Python's float \<open>*\<close>. The sign of a zero result is not represented.\<close>

fun fmul :: "double \<Rightarrow> double \<Rightarrow> double" where
  "fmul NaN _ = NaN"
| "fmul _ NaN = NaN"
| "fmul (Fin a) (Fin b) = round_to_double (a * b)"
| "fmul a b = (if fsign a * fsign b = 0 then NaN else signed_inf (fsign a * fsign b))"

text \<open>Python's float \<open>/\<close>: a zero divisor raises \<open>ZeroDivisionError\<close>, everything else
  follows IEEE 754.\<close>

fun fdiv :: "double \<Rightarrow> double \<Rightarrow> py_error + double" where
  "fdiv a (Fin b) =
     (if b = 0 then Inl ZeroDivisionError
      else case a of Fin x \<Rightarrow> Inr (round_to_double (x / b))
                   | NaN \<Rightarrow> Inr NaN
                   | _ \<Rightarrow> Inr (signed_inf (fsign a * sgn b)))"
| "fdiv NaN _ = Inr NaN"
| "fdiv _ NaN = Inr NaN"
| "fdiv (Fin a) _ = Inr (Fin 0)"
| "fdiv _ _ = Inr NaN"

text \<open>Python's \<open>==\<close> on floats: NaN is equal to nothing, not even to itself.\<close>

fun feq :: "double \<Rightarrow> double \<Rightarrow> bool" where
  "feq NaN _ = False"
| "feq _ NaN = False"
| "feq a b = (a = b)"

text \<open>Conversion of an int that takes part in float arithmetic: correctly rounded, and
  \<open>OverflowError\<close> when the result is not finite.\<close>

definition int_to_float :: "int \<Rightarrow> py_error + double" where
  "int_to_float i =
     (case round_to_double (of_int i) of
        Fin r \<Rightarrow> Inr (Fin r)
      | _ \<Rightarrow> Inl OverflowError)"

definition int_add_float :: "int \<Rightarrow> double \<Rightarrow> py_error + double" where
  "int_add_float i x = (case int_to_float i of Inl e \<Rightarrow> Inl e | Inr d \<Rightarrow> Inr (fadd d x))"

definition int_sub_float :: "int \<Rightarrow> double \<Rightarrow> py_error + double" where
  "int_sub_float i x = (case int_to_float i of Inl e \<Rightarrow> Inl e | Inr d \<Rightarrow> Inr (fsub d x))"

subsection \<open>Ranges, indexing, decimal strings\<close>

text \<open>\<open>range(start, stop, step)\<close> for the positive steps the script uses.\<close>

function py_range :: "int \<Rightarrow> int \<Rightarrow> int \<Rightarrow> int list" where
  "py_range i stop step =
     (if 0 < step \<and> i < stop then i # py_range (i + step) stop step else [])"
  by pat_completeness auto
termination
  by (relation "measure (\<lambda>(i, stop, step). nat (stop - i))") auto

declare py_range.simps [simp del]

text \<open>Subscripting a list: a negative subscript counts from the end of the list, and a
  subscript outside the list raises \<open>IndexError\<close>.\<close>

definition py_index :: "'a list \<Rightarrow> int \<Rightarrow> py_error + 'a" where
  "py_index xs i =
     (if 0 \<le> i \<and> i < int (length xs) then Inr (xs ! nat i)
      else if i < 0 \<and> - int (length xs) \<le> i then Inr (xs ! nat (int (length xs) + i))
      else Inl IndexError)"

text \<open>An f-string formats an int in decimal. CPython refuses to convert an int of more
  than 4300 digits; the qubit indices formatted in a drawing that \<open>draw\<close> returns are
  below \<open>2^1024\<close> and have at most 309.\<close>

definition digit_char :: "nat \<Rightarrow> char" where
  "digit_char d = ''0123456789'' ! d"

function str_nat :: "nat \<Rightarrow> string" where
  "str_nat n = (if n < 10 then [digit_char n] else str_nat (n div 10) @ [digit_char (n mod 10)])"
  by pat_completeness auto
termination
  by (relation "measure id") auto

declare str_nat.simps [simp del]

definition py_str :: "int \<Rightarrow> string" where
  "py_str i = (if i < 0 then CHR ''-'' # str_nat (nat (- i)) else str_nat (nat i))"

definition backslash :: string where
  "backslash = [CHR 0x5C]"

section \<open>The drawing surface\<close>

text \<open>
  The matplotlib axes object is not part of the repository. It is modelled as a recorder:
  every call the script makes on \<open>ax\<close> is appended, with its arguments, to the list of
  calls of the figure. The recorder accepts every call; what matplotlib does with the
  arguments is outside the repository. A run of a block of statements yields the calls it
  made and the exception, if any, that the script's own expressions raised.
\<close>

datatype patch = Rectangle "pyval \<times> pyval" pyval pyval kwargs

datatype call =
    Set_title string kwargs
  | Set_xlim pyval pyval
  | Set_ylim pyval pyval
  | Axis string
  | Hlines pyval pyval pyval kwargs
  | Text pyval pyval string kwargs
  | Add_patch patch
  | Vlines pyval pyval pyval kwargs
  | Plot pyval pyval string kwargs

type_synonym run = "call list \<times> py_error option"

definition emit :: "call \<Rightarrow> run" where
  "emit c = ([c], None)"

text \<open>Statement sequencing: the second block runs only if the first did not raise.\<close>

fun seq :: "run \<Rightarrow> run \<Rightarrow> run" where
  "seq (cs, Some e) r = (cs, Some e)"
| "seq (cs, None) (ds, r) = (cs @ ds, r)"

fun seqs :: "run list \<Rightarrow> run" where
  "seqs [] = ([], None)"
| "seqs (r # rs) = seq r (seqs rs)"

text \<open>Evaluate an expression that may raise, then continue with its value.\<close>

definition eval_then :: "py_error + 'a \<Rightarrow> ('a \<Rightarrow> run) \<Rightarrow> run" where
  "eval_then v f = (case v of Inl e \<Rightarrow> ([], Some e) | Inr x \<Rightarrow> f x)"

fun for_in :: "'a list \<Rightarrow> ('a \<Rightarrow> run) \<Rightarrow> run" where
  "for_in [] body = ([], None)"
| "for_in (x # xs) body = seq (body x) (for_in xs body)"

section \<open>MockUCCSDAnsatz\<close>

record 'p MockUCCSDAnsatz =
  num_parameters :: int
  num_qubits :: int
  num_particles :: 'p

definition init :: "int \<Rightarrow> 'p \<Rightarrow> 'p MockUCCSDAnsatz" where
  "init nq np = \<lparr>num_parameters = 16, num_qubits = nq, num_particles = np\<rparr>"

definition decompose :: "'p MockUCCSDAnsatz \<Rightarrow> 'p MockUCCSDAnsatz" where
  "decompose self = self"

subsection \<open>The blocks of \<open>draw\<close>\<close>

text \<open>Lines 58-61: one horizontal line and one index label per qubit.\<close>

definition qubit_lines :: "int \<Rightarrow> run" where
  "qubit_lines n =
     (let qubit_labels = map (\<lambda>i. ''$q_'' @ py_str i @ ''$'') (py_range 0 n 1)
      in for_in (py_range 0 n 1) (\<lambda>i.
           let y = i + 1
           in seq (emit (Hlines (PyInt y) (PyFloat (Fin (1 / 2))) (PyFloat (Fin (39 / 2)))
                          [(''color'', PyStr ''black''), (''linewidth'', PyInt 1)]))
                  (eval_then (py_index qubit_labels i) (\<lambda>lab.
                     emit (Text (PyInt 0) (PyInt y) lab
                            [(''va'', PyStr ''center''), (''ha'', PyStr ''right''),
                             (''fontsize'', PyInt 12), (''color'', PyStr ''darkcyan'')])))))"

text \<open>Lines 67-71: the phase banner and the two captions.\<close>

definition captions :: "int \<Rightarrow> run" where
  "captions n =
     seqs [
       eval_then (int_add_float n (float_lit (7 / 10))) (\<lambda>yb.
         emit (Text (PyFloat (Fin (19 / 2))) (PyFloat yb)
                (''PHASE 2: HYBRID QUANTUM COMPUTATION (VQE $'' @ backslash @ ''rightarrow$ QSE)'')
                [(''ha'', PyStr ''center''), (''va'', PyStr ''center''),
                 (''fontsize'', PyInt 12), (''color'', PyStr ''darkgreen'')])),
       emit (Text (PyFloat (Fin 2)) (PyFloat (Fin (1 / 2))) ''VQE STATE PREPARATION''
              [(''ha'', PyStr ''center''), (''va'', PyStr ''center''),
               (''fontsize'', PyInt 10), (''color'', PyStr ''blue'')]),
       emit (Text (PyFloat (Fin 17)) (PyFloat (Fin (1 / 2))) ''QSE MEASUREMENT & DIAGONALIZATION''
              [(''ha'', PyStr ''center''), (''va'', PyStr ''center''),
               (''fontsize'', PyInt 10), (''color'', PyStr ''red'')])]"

text \<open>Lines 80-83: the rotation boxes of layer \<open>k\<close> at \<open>x_rot\<close>.\<close>

definition rotation_layer :: "int \<Rightarrow> double \<Rightarrow> int \<Rightarrow> run" where
  "rotation_layer n x_rot k =
     for_in (py_range 0 n 1) (\<lambda>i.
       let y = i + 1
       in eval_then (int_sub_float y (Fin (1 / 4))) (\<lambda>yb.
            seq (emit (Add_patch (Rectangle (PyFloat x_rot, PyFloat yb)
                         (PyFloat (Fin 1)) (PyFloat (Fin (1 / 2)))
                         [(''facecolor'', PyStr ''lightblue''), (''edgecolor'', PyStr ''blue''),
                          (''alpha'', PyFloat (float_lit (7 / 10)))])))
                (emit (Text (PyFloat (fadd x_rot (Fin (1 / 2)))) (PyInt y)
                         (''$R_Y('' @ backslash @ ''theta_'' @ py_str k @ '')$'')
                         [(''ha'', PyStr ''center''), (''va'', PyStr ''center''),
                          (''fontsize'', PyInt 7)]))))"

text \<open>Lines 87-94 and 97-104: one pass of CNOT connectors. The two loops of the source
  differ in the start of the range, the x position and the colour only.\<close>

definition cnot_pass :: "int \<Rightarrow> int \<Rightarrow> double \<Rightarrow> string \<Rightarrow> run" where
  "cnot_pass n start x_pos colour =
     for_in (py_range start (n - 1) 2) (\<lambda>i.
       let y_control = i + 1; y_target = i + 2
       in eval_then (int_add_float y_control (Fin (1 / 4))) (\<lambda>y_lo.
          eval_then (int_sub_float y_target (Fin (1 / 4))) (\<lambda>y_hi.
            seqs [
              emit (Vlines (PyList [PyFloat x_pos]) (PyFloat y_lo) (PyFloat y_hi)
                     [(''color'', PyStr colour), (''linestyle'', PyStr ''-''),
                      (''linewidth'', PyFloat (Fin (3 / 2)))]),
              emit (Plot (PyFloat x_pos) (PyInt y_control) ''o''
                     [(''color'', PyStr colour), (''markersize'', PyInt 4)]),
              emit (Plot (PyFloat x_pos) (PyInt y_target) ''x''
                     [(''color'', PyStr colour), (''marker'', PyStr ''+''),
                      (''markersize'', PyInt 8)])])))"

definition layer_start_x :: "double list" where
  "layer_start_x = [Fin 1, Fin (9 / 2), Fin 9, Fin (27 / 2)]"

text \<open>Lines 74-104: the three repetition layers.\<close>

definition layer :: "int \<Rightarrow> int \<Rightarrow> run" where
  "layer n k =
     eval_then (py_index layer_start_x k) (\<lambda>x_rot.
     eval_then (py_index layer_start_x k) (\<lambda>x0.
       let x_ent = fadd x0 (Fin (3 / 2));
           x_ent_offset = fadd x_ent (Fin 1)
       in seqs [rotation_layer n x_rot k,
                cnot_pass n 0 x_ent ''red'',
                cnot_pass n 1 x_ent_offset ''orange'']))"

text \<open>Lines 107-114: the measurement block and the summary label.\<close>

definition measurement_block :: "int \<Rightarrow> run" where
  "measurement_block n =
     (let x_meas = Fin (35 / 2)
      in for_in (py_range 0 n 1) (\<lambda>i.
           let y = i + 1
           in eval_then (int_sub_float y (Fin (1 / 4))) (\<lambda>yb.
                seq (emit (Add_patch (Rectangle (PyFloat x_meas, PyFloat yb)
                             (PyFloat (Fin (3 / 2))) (PyFloat (Fin (1 / 2)))
                             [(''facecolor'', PyStr ''lightcoral''), (''edgecolor'', PyStr ''red''),
                              (''hatch'', PyStr ''//''), (''alpha'', PyFloat (float_lit (9 / 10)))])))
                    (emit (Text (PyFloat (fadd x_meas (Fin (3 / 4)))) (PyInt y)
                             (''Obs ($'' @ backslash @ ''hat{O}$)'')
                             [(''ha'', PyStr ''center''), (''va'', PyStr ''center''),
                              (''fontsize'', PyInt 7), (''color'', PyStr ''black'')])))))"

definition summary_label :: run where
  "summary_label =
     emit (Text (PyFloat (Fin (73 / 4))) (PyFloat (Fin (3 / 2)))
            (''QSE $'' @ backslash @ ''rightarrow H_{'' @ backslash @ ''text{eff}}$'')
            [(''ha'', PyStr ''center''), (''va'', PyStr ''center''), (''fontsize'', PyInt 10),
             (''color'', PyStr ''red''), (''weight'', PyStr ''bold'')])"

subsection \<open>\<open>draw\<close>\<close>

text \<open>The statements of \<open>draw\<close> after the figure has been created, in source order.\<close>

definition draw_body :: "'p MockUCCSDAnsatz \<Rightarrow> run" where
  "draw_body self =
     (let n = num_qubits self
      in seqs [
           emit (Set_title ''VQE UCCSD Ansatz Architecture (8 Qubits, 3 Repetitions)''
                  [(''fontsize'', PyInt 14)]),
           emit (Set_xlim (PyInt 0) (PyInt 20)),
           emit (Set_ylim (PyInt 0) (PyInt (n + 1))),
           emit (Axis ''off''),
           qubit_lines n,
           captions n,
           for_in (py_range 0 3 1) (layer n),
           measurement_block n,
           summary_label])"

text \<open>
  Binding the arguments of a call to \<open>def draw(self, *args, **kwargs)\<close>. Every positional
  argument goes to \<open>args\<close> and every keyword argument to \<open>kwargs\<close>, with two exceptions
  that raise \<open>TypeError\<close> before the body runs: a keyword named \<open>self\<close> clashes with
  the receiver, and a keyword given twice has no single value.
\<close>

definition bind_draw :: "pyval list \<Rightarrow> kwargs \<Rightarrow> py_error option" where
  "bind_draw args kws =
     (if ''self'' \<in> set (map fst kws) then Some TypeError
      else if distinct (map fst kws) then None
      else Some TypeError)"

text \<open>
  \<open>plt.subplots\<close> opens a new figure in pyplot's registry of open figures, which is
  the only state outside the ansatz that \<open>draw\<close> touches; the new figure gets the number
  after the largest one in use. The figure stays registered, with the calls made so far,
  when the body of \<open>draw\<close> raises. When the arguments do not bind, the body does not run
  and no figure is opened. The bound positional and keyword arguments are never read.
\<close>

record figure =
  fig_number :: nat
  fig_calls :: "call list"

type_synonym pyplot = "figure list"

definition next_number :: "pyplot \<Rightarrow> nat" where
  "next_number plt = Suc (fold max (map fig_number plt) 0)"

definition draw ::
  "'p MockUCCSDAnsatz \<Rightarrow> pyval list \<Rightarrow> kwargs \<Rightarrow> pyplot \<Rightarrow> (py_error + figure) \<times> pyplot" where
  "draw self args kws plt =
     (case bind_draw args kws of
        Some e \<Rightarrow> (Inl e, plt)
      | None \<Rightarrow>
          (let (cs, err) = draw_body self;
               fig = \<lparr>fig_number = next_number plt, fig_calls = cs\<rparr>
           in (case err of None \<Rightarrow> Inr fig | Some e \<Rightarrow> Inl e, plt @ [fig])))"

text \<open>What a call of \<open>draw\<close> leaves to look at: the drawing calls recorded in the figure it
  opened (the last one of the registry), and the drawing calls of the figure it returned.
  A call that ended in \<open>TypeError\<close> opened no figure and recorded nothing: the body of
  \<open>draw\<close> raises no \<open>TypeError\<close> of its own.\<close>

definition drawn_calls :: "(py_error + figure) \<times> pyplot \<Rightarrow> call list" where
  "drawn_calls r = (if fst r = Inl TypeError then [] else fig_calls (last (snd r)))"

definition returned_geometry :: "(py_error + figure) \<times> pyplot \<Rightarrow> py_error + call list" where
  "returned_geometry r = (case fst r of Inl e \<Rightarrow> Inl e | Inr fig \<Rightarrow> Inr (fig_calls fig))"

section \<open>\<open>run_vqe_qse\<close>\<close>

record MockSparsePauliOp =
  op_num_qubits :: int

text \<open>
  Lines 143-182. The function computes three energies from \<open>exact_energy\<close> with float
  arithmetic, builds the ansatz and returns the four values. In between it computes the
  error reduction in percent, a float division that raises \<open>ZeroDivisionError\<close> when
  \<open>vqe_error\<close> is zero. The lines it prints are not modelled.
\<close>

definition run_vqe_qse ::
  "MockSparsePauliOp \<Rightarrow> int \<Rightarrow> 'p \<Rightarrow> double \<Rightarrow> double
     \<Rightarrow> py_error + ('p MockUCCSDAnsatz \<times> double \<times> double \<times> double)" where
  "run_vqe_qse qubit_op nq np nuclear_repulsion_energy exact_energy =
     (let vqe_energy = fadd exact_energy (float_lit (45 / 1000));
          vqe_error = fabs (fsub vqe_energy exact_energy);
          qse_energy_e = fadd exact_energy (float_lit (2 / 1000));
          qse_error = fabs (fsub qse_energy_e exact_energy)
      in case fdiv (fsub vqe_error qse_error) vqe_error of
           Inl e \<Rightarrow> Inl e
         | Inr ratio \<Rightarrow>
             (let improvement = fmul ratio (Fin 100);
                  PEM_CORRECTION_FACTOR = fneg (float_lit (19 / 10000));
                  final_corrected_energy = fadd qse_energy_e PEM_CORRECTION_FACTOR;
                  ansatz = init nq np
              in Inr (ansatz, vqe_energy, qse_energy_e, final_corrected_energy)))"

section \<open>Reading a drawing\<close>

text \<open>
  The elements of the diagram are recognised in the recorded calls by the way the script
  draws them: a qubit line is an \<open>hlines\<close> call, an index label a text at x = 0, a
  rotation box a light blue rectangle, a measurement box a light coral rectangle; a
  connector is a \<open>vlines\<close> call with a control dot (marker \<open>o\<close>) and a target cross
  (marker \<open>x\<close>) of the same colour, red in the first pass and orange in the second.
  Qubit \<open>i\<close> lives at height \<open>i + 1\<close>.
\<close>

fun qubit_line_of :: "call \<Rightarrow> int option" where
  "qubit_line_of (Hlines (PyInt y) xmin xmax ks) = Some (y - 1)"
| "qubit_line_of _ = None"

fun index_label_of :: "call \<Rightarrow> (int \<times> string) option" where
  "index_label_of (Text (PyInt x) (PyInt y) s ks) = (if x = 0 then Some (y - 1, s) else None)"
| "index_label_of _ = None"

fun box_of :: "string \<Rightarrow> call \<Rightarrow> (pyval \<times> pyval) option" where
  "box_of colour (Add_patch (Rectangle xy w h ks)) =
     (if map_of ks ''facecolor'' = Some (PyStr colour) then Some xy else None)"
| "box_of colour _ = None"


fun link_of :: "string \<Rightarrow> call \<Rightarrow> double option" where
  "link_of colour (Vlines (PyList [PyFloat x]) lo hi ks) =
     (if map_of ks ''color'' = Some (PyStr colour) then Some x else None)"
| "link_of colour _ = None"


fun is_connector_call :: "call \<Rightarrow> bool" where
  "is_connector_call (Vlines xs lo hi ks) = True"
| "is_connector_call (Plot x y f ks) = True"
| "is_connector_call _ = False"

definition qubit_lines_drawn :: "call list \<Rightarrow> int list" where
  "qubit_lines_drawn cs = List.map_filter qubit_line_of cs"

definition index_labels_drawn :: "call list \<Rightarrow> (int \<times> string) list" where
  "index_labels_drawn cs = List.map_filter index_label_of cs"

definition boxes_drawn :: "string \<Rightarrow> call list \<Rightarrow> (pyval \<times> pyval) list" where
  "boxes_drawn colour cs = List.map_filter (box_of colour) cs"


definition rotation_label :: "int \<Rightarrow> string" where
  "rotation_label k = ''$R_Y('' @ backslash @ ''theta_'' @ py_str k @ '')$''"

text \<open>The connectors of one colour: for each, the x position of the vertical link and the
  qubits of its control dot and of its target cross, in drawing order.\<close>

definition links_drawn :: "string \<Rightarrow> call list \<Rightarrow> double list" where
  "links_drawn colour cs = List.map_filter (link_of colour) cs"




text \<open>The x positions of the two entanglement passes of layer \<open>k\<close> (lines 76-77).\<close>

definition x_ent :: "nat \<Rightarrow> double" where
  "x_ent k = fadd (layer_start_x ! k) (Fin (3 / 2))"

definition x_ent_offset :: "nat \<Rightarrow> double" where
  "x_ent_offset k = fadd (x_ent k) (Fin 1)"


text \<open>The largest magnitude of an int that converts to a float is below this bound.\<close>

definition float_int_bound :: int where
  "float_int_bound = 2 ^ 1024 - 2 ^ 970"

section \<open>Properties\<close>

subsection \<open>Rounding to binary64\<close>


lemma pow2_powi: "pow2 k = 2 powi k"
  by (simp add: pow2_def power_int_def power_inverse [symmetric] inverse_eq_divide power_one_over)

lemma pow2_pos [simp]: "0 < pow2 k"
  by (simp add: pow2_powi)

lemma pow2_add: "pow2 (a + b) = pow2 a * pow2 b"
  by (simp add: pow2_powi power_int_add)

lemma pow2_mono: "a \<le> b \<Longrightarrow> pow2 a \<le> pow2 b"
  by (simp add: pow2_powi power_int_increasing)

lemma pow2_strict_mono: "a < b \<Longrightarrow> pow2 a < pow2 b"
  by (simp add: pow2_powi power_int_strict_increasing)

lemma pow2_le_iff [simp]: "pow2 a \<le> pow2 b \<longleftrightarrow> a \<le> b"
  using pow2_mono [of a b] pow2_strict_mono [of b a] by (auto simp: not_le [symmetric])

lemma pow2_less_iff [simp]: "pow2 a < pow2 b \<longleftrightarrow> a < b"
  using pow2_mono [of b a] pow2_strict_mono [of a b] by (auto simp: not_less [symmetric])

lemma pow2_nat: "pow2 (int n) = 2 ^ n"
  by (simp add: pow2_def)

lemma pow2_numeral [simp]: "pow2 (numeral n) = 2 ^ numeral n"
  by (simp add: pow2_def)

lemma pow2_0 [simp]: "pow2 0 = 1"
  by (simp add: pow2_def)

lemma pow2_1 [simp]: "pow2 1 = 2"
  by (simp add: pow2_def)

lemma pow2_Suc: "pow2 (k + 1) = 2 * pow2 k"
  by (simp add: pow2_add)

lemma pow2_minus: "pow2 (- k) = 1 / pow2 k"
  by (simp add: pow2_powi power_int_minus_divide)

lemma pow2_diff: "pow2 (a - b) = pow2 a / pow2 b"
  using pow2_add [of a "- b"] by (simp add: pow2_minus)

lemma bit_length_pos: "0 < a \<Longrightarrow> bit_length a = 1 + bit_length (a div 2)"
  by (subst bit_length.simps) simp

lemma bit_length_nonpos: "a \<le> 0 \<Longrightarrow> bit_length a = 0"
  by (subst bit_length.simps) simp

lemma bit_length_int:
  "0 < a \<Longrightarrow> 0 < bit_length a \<and> 2 ^ nat (bit_length a - 1) \<le> a \<and> a < 2 ^ nat (bit_length a)"
proof (induction a rule: bit_length.induct)
  case (1 a)
  show ?case
  proof (cases "a = 1")
    case True
    then show ?thesis
      by (simp add: bit_length_pos bit_length_nonpos)
  next
    case False
    with "1.prems" have h: "0 < a div 2" by simp
    define b where "b = bit_length (a div 2)"
    have ih: "0 < b" "2 ^ nat (b - 1) \<le> a div 2" "a div 2 < 2 ^ nat b"
      using "1.IH" "1.prems" h by (simp_all add: b_def)
    have bl: "bit_length a = b + 1"
      using "1.prems" by (simp add: bit_length_pos b_def)
    have p: "(2::int) ^ nat b = 2 * 2 ^ nat (b - 1)"
      using ih(1) by (metis Suc_diff_1 nat_diff_distrib' nat_one_as_int power_Suc zero_less_nat_eq zero_le_one order_less_imp_le)
    have q: "(2::int) ^ nat (b + 1) = 2 * 2 ^ nat b"
      using ih(1) by (simp add: nat_add_distrib)
    have lo: "2 ^ nat b \<le> a"
      using ih(2) p by linarith
    have hi: "a < 2 ^ nat (b + 1)"
      using ih(3) q by linarith
    show ?thesis
      using ih(1) lo hi by (simp add: bl)
  qed
qed

lemma bit_length_bounds:
  assumes "0 < a"
  shows "pow2 (bit_length a - 1) \<le> of_int a" and "of_int a < pow2 (bit_length a)"
proof -
  from bit_length_int [OF assms]
  have b: "0 < bit_length a" and lo: "2 ^ nat (bit_length a - 1) \<le> a"
    and hi: "a < 2 ^ nat (bit_length a)" by simp_all
  have "(of_int (2 ^ nat (bit_length a - 1)) :: rat) \<le> of_int a"
    using lo by (simp only: of_int_le_iff)
  then show "pow2 (bit_length a - 1) \<le> of_int a"
    using b by (simp add: pow2_def)
  have "(of_int a :: rat) < of_int (2 ^ nat (bit_length a))"
    using hi by (simp only: of_int_less_iff)
  then show "of_int a < pow2 (bit_length a)"
    using b by (simp add: pow2_def)
qed

lemma floor_log2_bounds:
  assumes "q \<noteq> 0"
  shows "pow2 (floor_log2 q) \<le> \<bar>q\<bar>" and "\<bar>q\<bar> < pow2 (floor_log2 q + 1)"
proof -
  obtain a b where ab: "quotient_of \<bar>q\<bar> = (a, b)" by (cases "quotient_of \<bar>q\<bar>")
  have bpos: "0 < b" using ab quotient_of_denom_pos by blast
  have qab: "\<bar>q\<bar> = of_int a / of_int b" using ab by (rule quotient_of_div)
  have apos: "0 < a"
  proof -
    have "0 < \<bar>q\<bar>" using assms by simp
    then have "(0::rat) < of_int a / of_int b" by (simp only: qab)
    then show ?thesis using bpos by (simp add: zero_less_divide_iff)
  qed
  define c where "c = bit_length a - bit_length b"
  have fl: "floor_log2 q = (if pow2 c \<le> \<bar>q\<bar> then c else c - 1)"
    by (simp add: floor_log2_def ab c_def Let_def)
  note A = bit_length_bounds [OF apos]
  note B = bit_length_bounds [OF bpos]
  have bq: "(0::rat) < of_int b" using bpos by simp
  have lo: "pow2 (c - 1) \<le> \<bar>q\<bar>"
  proof -
    have "pow2 (c - 1) * of_int b \<le> pow2 (c - 1) * pow2 (bit_length b)"
      using B(2) by (simp add: less_imp_le)
    also have "\<dots> = pow2 (bit_length a - 1)"
      by (simp add: pow2_add [symmetric] c_def)
    also have "\<dots> \<le> of_int a" by (rule A(1))
    finally show ?thesis using bq by (simp add: qab pos_le_divide_eq)
  qed
  have hi: "\<bar>q\<bar> < pow2 (c + 1)"
  proof -
    have "of_int a < pow2 (bit_length a)" by (rule A(2))
    also have "\<dots> = pow2 (c + 1) * pow2 (bit_length b - 1)"
      by (simp add: pow2_add [symmetric] c_def)
    also have "\<dots> \<le> pow2 (c + 1) * of_int b"
      using B(1) by simp
    finally show ?thesis using bq by (simp add: qab pos_divide_less_eq)
  qed
  show "pow2 (floor_log2 q) \<le> \<bar>q\<bar>"
    using lo by (simp add: fl)
  show "\<bar>q\<bar> < pow2 (floor_log2 q + 1)"
    using hi by (auto simp: fl not_le)
qed

lemma floor_log2_eqI:
  assumes "pow2 e \<le> \<bar>q\<bar>" "\<bar>q\<bar> < pow2 (e + 1)"
  shows "floor_log2 q = e"
proof -
  have "q \<noteq> 0" using assms(1) less_le_trans [OF pow2_pos [of e], of "\<bar>q\<bar>"] by auto
  note F = floor_log2_bounds [OF this]
  have "pow2 e < pow2 (floor_log2 q + 1)" by (rule le_less_trans [OF assms(1) F(2)])
  moreover have "pow2 (floor_log2 q) < pow2 (e + 1)" by (rule le_less_trans [OF F(1) assms(2)])
  ultimately show ?thesis by simp
qed


lemma round_half_even_of_int [simp]: "round_half_even (of_int m) = m"
  by (simp add: round_half_even_def)

lemma round_half_even_error: "\<bar>of_int (round_half_even r) - r\<bar> \<le> 1 / 2"
proof -
  have "of_int \<lfloor>r\<rfloor> \<le> r" "r < of_int \<lfloor>r\<rfloor> + 1" by linarith+
  then show ?thesis
    by (auto simp: round_half_even_def Let_def abs_le_iff)
qed

lemma round_half_even_mono: "r \<le> s \<Longrightarrow> round_half_even r \<le> round_half_even s"
proof -
  assume rs: "r \<le> s"
  have fm: "\<lfloor>r\<rfloor> \<le> \<lfloor>s\<rfloor>" using rs by (rule floor_mono)
  show ?thesis
  proof (cases "\<lfloor>r\<rfloor> = \<lfloor>s\<rfloor>")
    case True
    then show ?thesis using rs
      by (auto simp: round_half_even_def Let_def)
  next
    case False
    with fm have "\<lfloor>r\<rfloor> + 1 \<le> \<lfloor>s\<rfloor>" by simp
    moreover have "round_half_even r \<le> \<lfloor>r\<rfloor> + 1"
      by (simp add: round_half_even_def Let_def)
    moreover have "\<lfloor>s\<rfloor> \<le> round_half_even s"
      by (simp add: round_half_even_def Let_def)
    ultimately show ?thesis by linarith
  qed
qed

lemma round_half_even_minus: "round_half_even (- r) = - round_half_even r"
proof (cases "r \<in> \<int>")
  case True
  then obtain m where "r = of_int m" by (auto elim: Ints_cases)
  then show ?thesis by (simp flip: of_int_minus)
next
  case False
  then have ne: "r \<noteq> of_int \<lfloor>r\<rfloor>"
    by (metis Ints_of_int)
  then have f: "\<lfloor>- r\<rfloor> = - \<lfloor>r\<rfloor> - 1"
    by (simp add: floor_minus ceiling_altdef)
  have lt: "of_int \<lfloor>r\<rfloor> < r"
    by (metis ne less_le of_int_floor_le)
  show ?thesis
    using lt by (auto simp: round_half_even_def Let_def f)
qed

lemma round_to_double_unfold:
  "q \<noteq> 0 \<Longrightarrow> round_to_double q =
     (let r = of_int (round_half_even (q / ulp_of q)) * ulp_of q
      in if 2 ^ 1024 \<le> r then PInf else if r \<le> - (2 ^ 1024) then NInf else Fin r)"
  by (simp add: round_to_double_def ulp_of_def Let_def)

lemma ulp_of_pos [simp]: "0 < ulp_of q"
  by (simp add: ulp_of_def)

lemma rounded_error:
  "\<bar>of_int (round_half_even (q / ulp_of q)) * ulp_of q - q\<bar> \<le> ulp_of q / 2"
proof -
  have "\<bar>of_int (round_half_even (q / ulp_of q)) - q / ulp_of q\<bar> * ulp_of q \<le> 1 / 2 * ulp_of q"
    by (rule mult_right_mono [OF round_half_even_error]) (simp add: less_imp_le)
  moreover have "\<bar>of_int (round_half_even (q / ulp_of q)) - q / ulp_of q\<bar> * ulp_of q
       = \<bar>of_int (round_half_even (q / ulp_of q)) * ulp_of q - q\<bar>"
  proof -
    have "\<bar>of_int (round_half_even (q / ulp_of q)) - q / ulp_of q\<bar> * \<bar>ulp_of q\<bar>
        = \<bar>(of_int (round_half_even (q / ulp_of q)) - q / ulp_of q) * ulp_of q\<bar>"
      by (simp only: abs_mult)
    moreover have "ulp_of q \<noteq> 0" by (metis less_irrefl ulp_of_pos)
    ultimately show ?thesis by (simp add: left_diff_distrib less_imp_le)
  qed
  ultimately show ?thesis by simp
qed


lemma ulp_of_exp: "ulp_of q = pow2 (ulp_exp q)"
  by (simp add: ulp_of_def ulp_exp_def)

lemma pow2_div_ulp:
  assumes "ulp_exp q \<le> k"
  shows "pow2 k / ulp_of q = of_int (2 ^ nat (k - ulp_exp q))"
proof -
  have "pow2 k / ulp_of q = pow2 (k - ulp_exp q)"
    by (simp add: ulp_of_exp pow2_diff)
  also have "\<dots> = 2 ^ nat (k - ulp_exp q)"
    using assms by (simp add: pow2_def)
  finally show ?thesis by simp
qed

lemma rounded_le:
  assumes "q \<le> of_int N * ulp_of q"
  shows "of_int (round_half_even (q / ulp_of q)) * ulp_of q \<le> of_int N * ulp_of q"
proof -
  have "q / ulp_of q \<le> of_int N"
    using assms by (simp add: pos_divide_le_eq)
  then have "round_half_even (q / ulp_of q) \<le> round_half_even (of_int N)"
    by (rule round_half_even_mono)
  then have "round_half_even (q / ulp_of q) \<le> N" by simp
  then have "(of_int (round_half_even (q / ulp_of q)) :: rat) \<le> of_int N"
    by (simp only: of_int_le_iff)
  then show ?thesis by (simp add: less_imp_le)
qed

lemma rounded_ge:
  assumes "of_int N * ulp_of q \<le> q"
  shows "of_int N * ulp_of q \<le> of_int (round_half_even (q / ulp_of q)) * ulp_of q"
proof -
  have "of_int N \<le> q / ulp_of q"
    using assms by (simp add: pos_le_divide_eq)
  then have "round_half_even (of_int N) \<le> round_half_even (q / ulp_of q)"
    by (rule round_half_even_mono)
  then have "N \<le> round_half_even (q / ulp_of q)" by simp
  then have "(of_int N :: rat) \<le> of_int (round_half_even (q / ulp_of q))"
    by (simp only: of_int_le_iff)
  then show ?thesis by (simp add: less_imp_le)
qed

lemma rounded_abs_le_pow2:
  assumes "\<bar>q\<bar> \<le> pow2 k" "ulp_exp q \<le> k"
  shows "\<bar>of_int (round_half_even (q / ulp_of q)) * ulp_of q\<bar> \<le> pow2 k"
proof -
  define N :: int where "N = 2 ^ nat (k - ulp_exp q)"
  have pk: "pow2 k = of_int N * ulp_of q"
    using pow2_div_ulp [OF assms(2)] ulp_of_pos [of q]
    by (simp add: N_def nonzero_divide_eq_eq less_imp_neq [THEN not_sym])
  have "q \<le> of_int N * ulp_of q" using assms(1) pk by simp
  from rounded_le [OF this]
  have hi: "of_int (round_half_even (q / ulp_of q)) * ulp_of q \<le> pow2 k" by (simp add: pk)
  have "of_int (- N) * ulp_of q \<le> q" using assms(1) pk by simp
  from rounded_ge [OF this]
  have lo: "- pow2 k \<le> of_int (round_half_even (q / ulp_of q)) * ulp_of q" by (simp add: pk)
  show ?thesis using lo hi by (simp add: abs_le_iff)
qed

text \<open>Values below \<open>2^E\<close>, \<open>E \<le> 1023\<close>, round to a finite double, within half a unit.\<close>

lemma round_to_double_near:
  assumes "\<bar>q\<bar> < pow2 E" "- 1074 \<le> E" "E \<le> 1023"
  shows "\<exists>r. round_to_double q = Fin r \<and> \<bar>r - q\<bar> \<le> pow2 (max (E - 53) (- 1074)) / 2
             \<and> \<bar>r\<bar> \<le> pow2 E"
proof (cases "q = 0")
  case True
  then show ?thesis by (simp add: round_to_double_def less_imp_le)
next
  case False
  define r where "r = of_int (round_half_even (q / ulp_of q)) * ulp_of q"
  have "pow2 (floor_log2 q) < pow2 E"
    by (rule le_less_trans [OF floor_log2_bounds(1) [OF False] assms(1)])
  then have e: "floor_log2 q < E" by simp
  then have ue: "ulp_exp q \<le> max (E - 53) (- 1074)" "ulp_exp q \<le> E"
    using assms(2) by (simp_all add: ulp_exp_def)
  have r1: "\<bar>r\<bar> \<le> pow2 E"
    unfolding r_def using assms(1) ue(2) by (intro rounded_abs_le_pow2) simp_all
  have "pow2 E \<le> pow2 1023" using assms(3) by (simp del: pow2_numeral)
  then have "\<bar>r\<bar> \<le> 2 ^ 1023" using r1 by simp
  then have r2: "\<not> 2 ^ 1024 \<le> r" "\<not> r \<le> - (2 ^ 1024)" by (simp_all add: abs_le_iff)
  have "\<bar>r - q\<bar> \<le> ulp_of q / 2" unfolding r_def by (rule rounded_error)
  also have "\<dots> \<le> pow2 (max (E - 53) (- 1074)) / 2"
    using ue(1) by (simp add: ulp_of_exp)
  finally have r3: "\<bar>r - q\<bar> \<le> pow2 (max (E - 53) (- 1074)) / 2" .
  have "round_to_double q = Fin r"
    using r2 by (simp add: round_to_double_unfold [OF False] r_def [symmetric] Let_def)
  then show ?thesis using r1 r3 by blast
qed

text \<open>Numbers with a significand of at most 53 bits and an exponent in range are doubles:
  rounding leaves them as they are.\<close>

lemma round_to_double_exact:
  assumes "q = of_int m * pow2 k" "\<bar>m\<bar> < 2 ^ 53" "- 1074 \<le> k" "\<bar>q\<bar> < 2 ^ 1024"
  shows "round_to_double q = Fin q"
proof (cases "q = 0")
  case True
  then show ?thesis by (simp add: round_to_double_def)
next
  case False
  have "\<bar>q\<bar> = of_int \<bar>m\<bar> * pow2 k"
    by (simp add: assms(1) abs_mult less_imp_le)
  also have "\<dots> < 2 ^ 53 * pow2 k"
  proof -
    have "(of_int \<bar>m\<bar> :: rat) < of_int (2 ^ 53)" using assms(2) by (simp only: of_int_less_iff)
    then show ?thesis by simp
  qed
  also have "\<dots> = pow2 (53 + k)" by (simp add: pow2_add)
  finally have lt: "\<bar>q\<bar> < pow2 (53 + k)" .
  have "pow2 (floor_log2 q) < pow2 (53 + k)"
    by (rule le_less_trans [OF floor_log2_bounds(1) [OF False] lt])
  then have "floor_log2 q < 53 + k" by simp
  then have ue: "ulp_exp q \<le> k" using assms(3) by (simp add: ulp_exp_def)
  have "q / ulp_of q = of_int m * (pow2 k / ulp_of q)" by (simp add: assms(1))
  also have "\<dots> = of_int (m * 2 ^ nat (k - ulp_exp q))"
    by (simp add: pow2_div_ulp [OF ue])
  finally have "of_int (round_half_even (q / ulp_of q)) * ulp_of q = q / ulp_of q * ulp_of q"
    by (simp only: round_half_even_of_int)
  also have "\<dots> = q" using ulp_of_pos [of q] by (simp add: less_imp_neq [THEN not_sym])
  finally have r: "of_int (round_half_even (q / ulp_of q)) * ulp_of q = q" .
  show ?thesis
    using assms(4) by (simp add: round_to_double_unfold [OF False] r Let_def abs_less_iff not_le)
qed


lemma round_to_double_dyadic:
  assumes "\<bar>m\<bar> < 2 ^ 53" "j \<le> 1074"
  shows "round_to_double (of_int m / 2 ^ j) = Fin (of_int m / 2 ^ j)"
proof -
  have q: "(of_int m / 2 ^ j :: rat) = of_int m * pow2 (- int j)"
    by (simp add: pow2_minus pow2_nat)
  have "\<bar>of_int m / 2 ^ j :: rat\<bar> \<le> \<bar>of_int m\<bar>"
    by (simp add: abs_divide divide_le_eq_1 field_simps mult_le_cancel_left1)
  also have "\<dots> = of_int \<bar>m\<bar>" by simp
  also have "\<dots> < of_int (2 ^ 53)" using assms(1) by (simp only: of_int_less_iff)
  also have "\<dots> < 2 ^ 1024" by simp
  finally have b: "\<bar>of_int m / 2 ^ j :: rat\<bar> < 2 ^ 1024" .
  show ?thesis
    by (rule round_to_double_exact [OF q assms(1) _ b]) (use assms(2) in simp)
qed


lemma round_half_even_eqI:
  assumes "of_int m - 1 / 2 < r" "r < of_int m + 1 / 2"
  shows "round_half_even r = m"
proof -
  have "\<lfloor>r\<rfloor> = m \<or> \<lfloor>r\<rfloor> = m - 1"
  proof -
    have "r < of_int (m + 1)" using assms(2) by simp
    then have a: "\<lfloor>r\<rfloor> < m + 1" by (simp only: floor_less_iff)
    have "of_int (m - 1) \<le> r" using assms(1) by simp
    then have b: "m - 1 \<le> \<lfloor>r\<rfloor>" by (simp only: le_floor_iff)
    show ?thesis using a b by linarith
  qed
  then show ?thesis
  proof
    assume f: "\<lfloor>r\<rfloor> = m"
    show ?thesis using assms(2) by (simp add: round_half_even_def Let_def f)
  next
    assume f: "\<lfloor>r\<rfloor> = m - 1"
    show ?thesis using assms(1) by (simp add: round_half_even_def Let_def f)
  qed
qed

lemma round_to_double_eval:
  assumes "pow2 e \<le> \<bar>q\<bar>" "\<bar>q\<bar> < pow2 (e + 1)"
    and "of_int m - 1 / 2 < q / pow2 (max (e - 52) (- 1074))"
    and "q / pow2 (max (e - 52) (- 1074)) < of_int m + 1 / 2"
    and "\<bar>of_int m * pow2 (max (e - 52) (- 1074))\<bar> < 2 ^ 1024"
  shows "round_to_double q = Fin (of_int m * pow2 (max (e - 52) (- 1074)))"
proof -
  have e: "floor_log2 q = e" by (rule floor_log2_eqI [OF assms(1,2)])
  have m: "round_half_even (q / pow2 (max (e - 52) (- 1074))) = m"
    by (rule round_half_even_eqI [OF assms(3,4)])
  have "q \<noteq> 0" using assms(1) less_le_trans [OF pow2_pos [of e], of "\<bar>q\<bar>"] by auto
  then show ?thesis
    using assms(5) by (simp add: round_to_double_def e m Let_def abs_less_iff not_le)
qed

lemma pow2_neg_numeral [simp]: "pow2 (- numeral n) = 1 / 2 ^ numeral n"
  by (simp add: pow2_def)


lemma round_to_double_FinI:
  assumes "q \<noteq> 0" "\<bar>of_int (round_half_even (q / ulp_of q)) * ulp_of q\<bar> < 2 ^ 1024"
  shows "round_to_double q = Fin (of_int (round_half_even (q / ulp_of q)) * ulp_of q)"
  using assms(2) by (simp add: round_to_double_unfold [OF assms(1)] Let_def abs_less_iff not_le)

text \<open>Every rational of magnitude below \<open>2^1024 - 2^970\<close> rounds to a finite double.\<close>

lemma round_to_double_finite:
  assumes "\<bar>q\<bar> < 2 ^ 1024 - 2 ^ 970"
  shows "\<exists>r. round_to_double q = Fin r"
proof (cases "\<bar>q\<bar> < pow2 1023")
  case True
  from round_to_double_near [OF True] show ?thesis by auto
next
  case False
  then have lo: "pow2 1023 \<le> \<bar>q\<bar>" by simp
  have hi: "\<bar>q\<bar> < pow2 (1023 + 1)" using assms by simp
  have e: "floor_log2 q = 1023" by (rule floor_log2_eqI [OF lo hi])
  have q0: "q \<noteq> 0" using lo by auto
  have u: "ulp_of q = 2 ^ 971" by (simp add: ulp_of_def e)
  define m where "m = round_half_even (q / ulp_of q)"
  define x where "x = q / 2 ^ 971"
  have err: "\<bar>of_int m - x\<bar> \<le> 1 / 2"
    unfolding m_def u x_def by (rule round_half_even_error)
  have "\<bar>q\<bar> / 2 ^ 971 < (2 ^ 1024 - 2 ^ 970) / 2 ^ 971"
    using assms by (simp only: divide_strict_right_mono zero_less_numeral zero_less_power)
  then have qb: "\<bar>x\<bar> < 2 ^ 53 - 1 / 2" by (simp add: abs_divide x_def)
  have "\<bar>(of_int m :: rat)\<bar> < 2 ^ 53"
    using err qb by linarith
  then have "(of_int \<bar>m\<bar> :: rat) < of_int (2 ^ 53)" by simp
  then have "\<bar>m\<bar> < 2 ^ 53" by (simp only: of_int_less_iff)
  then have "\<bar>m\<bar> \<le> 2 ^ 53 - 1" by simp
  then have "(of_int \<bar>m\<bar> :: rat) \<le> of_int (2 ^ 53 - 1)" by (simp only: of_int_le_iff)
  then have "\<bar>(of_int m :: rat)\<bar> * 2 ^ 971 \<le> (2 ^ 53 - 1) * 2 ^ 971" by simp
  also have "\<dots> < 2 ^ 1024" by simp
  finally have "\<bar>of_int m * 2 ^ 971 :: rat\<bar> < 2 ^ 1024" by (simp add: abs_mult)
  then have "\<bar>of_int (round_half_even (q / ulp_of q)) * ulp_of q\<bar> < 2 ^ 1024"
    by (simp only: m_def u)
  from round_to_double_FinI [OF q0 this] show ?thesis by blast
qed

lemma round_to_double_overflow:
  assumes "2 ^ 1024 - 2 ^ 970 \<le> q"
  shows "round_to_double q = PInf"
proof -
  have q0: "q \<noteq> 0" using assms by auto
  have qpos: "0 < q" using assms by (simp add: less_le_trans [of 0 "2 ^ 1024 - 2 ^ 970"])
  have "pow2 1023 \<le> \<bar>q\<bar>" using assms by simp
  then have "pow2 1023 < pow2 (floor_log2 q + 1)"
    using floor_log2_bounds(2) [OF q0] by (rule le_less_trans)
  then have e: "1023 \<le> floor_log2 q" by (simp del: pow2_numeral)
  then have ue: "ulp_exp q = floor_log2 q - 52" by (simp add: ulp_exp_def)
  define r where "r = of_int (round_half_even (q / ulp_of q)) * ulp_of q"
  have "2 ^ 1024 \<le> r"
  proof (cases "floor_log2 q = 1023")
    case True
    then have u: "ulp_of q = 2 ^ 971" by (simp add: ulp_of_def)
    have "(2 ^ 1024 - 2 ^ 970) / 2 ^ 971 \<le> q / 2 ^ 971"
      using assms by (simp only: divide_right_mono zero_le_numeral zero_le_power)
    then have "(2 ^ 53 - 1 / 2 :: rat) \<le> q / 2 ^ 971" by simp
    then have "round_half_even (2 ^ 53 - 1 / 2) \<le> round_half_even (q / 2 ^ 971)"
      by (rule round_half_even_mono)
    moreover have "round_half_even (2 ^ 53 - 1 / 2) = 2 ^ 53"
    proof -
      have f: "\<lfloor>2 ^ 53 - 1 / 2 :: rat\<rfloor> = 2 ^ 53 - 1"
        by (rule floor_unique) simp_all
      show ?thesis unfolding round_half_even_def Let_def f by simp
    qed
    ultimately have "2 ^ 53 \<le> round_half_even (q / 2 ^ 971)" by simp
    then have "(of_int (2 ^ 53) :: rat) \<le> of_int (round_half_even (q / 2 ^ 971))"
      by (simp only: of_int_le_iff)
    then have "(2 ^ 53 :: rat) * 2 ^ 971 \<le> of_int (round_half_even (q / 2 ^ 971)) * 2 ^ 971"
      by simp
    then show ?thesis by (simp add: r_def u)
  next
    case False
    with e have e2: "1024 \<le> floor_log2 q" by simp
    have uk: "ulp_exp q \<le> floor_log2 q" by (simp add: ue)
    define N :: int where "N = 2 ^ nat (floor_log2 q - ulp_exp q)"
    have pk: "pow2 (floor_log2 q) = of_int N * ulp_of q"
      using pow2_div_ulp [OF uk] ulp_of_pos [of q]
      by (simp add: N_def nonzero_divide_eq_eq less_imp_neq [THEN not_sym])
    have "of_int N * ulp_of q \<le> q"
      using floor_log2_bounds(1) [OF q0] qpos by (simp add: pk)
    from rounded_ge [OF this] have "pow2 (floor_log2 q) \<le> r" by (simp add: pk r_def)
    moreover have "pow2 1024 \<le> pow2 (floor_log2 q)" using e2 by (simp del: pow2_numeral)
    ultimately show ?thesis by simp
  qed
  then show ?thesis
    by (simp add: round_to_double_unfold [OF q0] r_def [symmetric] Let_def)
qed

lemma int_to_float_finite:
  assumes "\<bar>i\<bar> < 2 ^ 1024 - 2 ^ 970"
  shows "\<exists>r. int_to_float i = Inr (Fin r)"
proof -
  have "(of_int \<bar>i\<bar> :: rat) < of_int (2 ^ 1024 - 2 ^ 970)"
    using assms by (simp only: of_int_less_iff)
  then have "\<bar>of_int i :: rat\<bar> < 2 ^ 1024 - 2 ^ 970" by simp
  from round_to_double_finite [OF this] show ?thesis
    by (auto simp: int_to_float_def)
qed

lemma int_to_float_overflow:
  assumes "2 ^ 1024 - 2 ^ 970 \<le> i"
  shows "int_to_float i = Inl OverflowError"
proof -
  have "(of_int (2 ^ 1024 - 2 ^ 970) :: rat) \<le> of_int i"
    using assms by (simp only: of_int_le_iff)
  then have "(2 ^ 1024 - 2 ^ 970 :: rat) \<le> of_int i" by simp
  from round_to_double_overflow [OF this] show ?thesis
    by (simp add: int_to_float_def)
qed

subsection \<open>Runs\<close>

lemma fst_emit [simp]: "fst (emit c) = [c]" and snd_emit [simp]: "snd (emit c) = None"
  by (simp_all add: emit_def)

lemma fst_seq: "fst (seq a b) = fst a @ (if snd a = None then fst b else [])"
  by (cases a; cases b; cases "snd a") auto

lemma snd_seq: "snd (seq a b) = (case snd a of None \<Rightarrow> snd b | Some e \<Rightarrow> Some e)"
  by (cases a; cases b; cases "snd a") auto

lemma seq_ok: "snd a = None \<Longrightarrow> seq a b = (fst a @ fst b, snd b)"
  by (cases a; cases b) auto

lemma eval_then_Inr [simp]: "eval_then (Inr x) f = f x"
  by (simp add: eval_then_def)

lemma eval_then_Inl [simp]: "eval_then (Inl e) f = ([], Some e)"
  by (simp add: eval_then_def)

lemma for_in_ok:
  "(\<And>x. x \<in> set xs \<Longrightarrow> snd (body x) = None)
     \<Longrightarrow> for_in xs body = (concat (map (\<lambda>x. fst (body x)) xs), None)"
  by (induction xs) (simp_all add: seq_ok)

lemma for_in_cong_ok:
  "(\<And>x. x \<in> set xs \<Longrightarrow> body x = (g x, None))
     \<Longrightarrow> for_in xs body = (concat (map g xs), None)"
  by (induction xs) (simp_all add: seq_ok)

subsection \<open>Ranges\<close>

lemma py_range_upto: "py_range a b 1 = [a..b - 1]"
proof (induction a b "1::int" rule: py_range.induct)
  case (1 i stop)
  show ?case
  proof (cases "i < stop")
    case True
    then have "py_range i stop 1 = i # py_range (i + 1) stop 1"
      by (subst py_range.simps) simp
    also have "\<dots> = i # [i + 1..stop - 1]" using "1" True by simp
    also have "\<dots> = [i..stop - 1]" using True by (simp add: upto_rec1)
    finally show ?thesis .
  next
    case False
    then show ?thesis by (subst py_range.simps) simp
  qed
qed

lemma py_range_bounds:
  "x \<in> set (py_range a b s) \<Longrightarrow> a \<le> x \<and> x < b"
proof (induction a b s rule: py_range.induct)
  case (1 i stop step)
  show ?case
  proof (cases "0 < step \<and> i < stop")
    case True
    then have eq: "py_range i stop step = i # py_range (i + step) stop step"
      by (subst py_range.simps) simp
    from "1.prems" eq have "x = i \<or> x \<in> set (py_range (i + step) stop step)" by simp
    then show ?thesis
    proof
      assume "x = i" then show ?thesis using True by simp
    next
      assume "x \<in> set (py_range (i + step) stop step)"
      with "1.IH" True have "i + step \<le> x \<and> x < stop" by simp
      then show ?thesis using True by simp
    qed
  next
    case False
    then have "py_range i stop step = []" by (subst py_range.simps) simp
    with "1.prems" show ?thesis by simp
  qed
qed

lemma set_py_range_2:
  "set (py_range a b 2) = {i. a \<le> i \<and> i < b \<and> even (i - a)}"
proof (induction a b "2::int" rule: py_range.induct)
  case (1 i stop)
  show ?case
  proof (cases "i < stop")
    case True
    then have eq: "py_range i stop 2 = i # py_range (i + 2) stop 2"
      by (subst py_range.simps) simp
    have ih: "set (py_range (i + 2) stop 2) = {j. i + 2 \<le> j \<and> j < stop \<and> even (j - (i + 2))}"
      using "1" True by simp
    show ?thesis
      unfolding eq using True
      by (auto simp: ih; presburger)
  next
    case False
    then have "py_range i stop 2 = []" by (subst py_range.simps) simp
    with False show ?thesis by auto
  qed
qed

lemma distinct_py_range: "distinct (py_range a b s)"
proof (induction a b s rule: py_range.induct)
  case (1 i stop step)
  show ?case
  proof (cases "0 < step \<and> i < stop")
    case True
    then have eq: "py_range i stop step = i # py_range (i + step) stop step"
      by (subst py_range.simps) simp
    have "i \<notin> set (py_range (i + step) stop step)"
      using py_range_bounds [of i "i + step" stop step] True by auto
    then show ?thesis using "1.IH" True by (simp add: eq)
  next
    case False
    then have "py_range i stop step = []" by (subst py_range.simps) simp
    then show ?thesis by simp
  qed
qed

lemma length_py_range_1: "length (py_range 0 n 1) = nat n"
  by (simp add: py_range_upto)


lemma py_range_Nil: "\<not> a < b \<Longrightarrow> py_range a b s = []"
  by (subst py_range.simps) simp

subsection \<open>Ints in float arithmetic\<close>

lemma int_to_float_eq:
  assumes "\<bar>i\<bar> < float_int_bound"
  shows "int_to_float i = Inr (round_to_double (of_int i))"
proof -
  from int_to_float_finite [of i] assms obtain r where r: "int_to_float i = Inr (Fin r)"
    by (auto simp: float_int_bound_def)
  then show ?thesis
    by (auto simp: int_to_float_def split: double.splits)
qed

lemma int_add_float_eq:
  "\<bar>i\<bar> < float_int_bound \<Longrightarrow> int_add_float i x = Inr (fadd (round_to_double (of_int i)) x)"
  by (simp add: int_add_float_def int_to_float_eq)

lemma int_sub_float_eq:
  "\<bar>i\<bar> < float_int_bound \<Longrightarrow> int_sub_float i x = Inr (fsub (round_to_double (of_int i)) x)"
  by (simp add: int_sub_float_def int_to_float_eq)


subsection \<open>Filtering a recorded drawing\<close>

lemma map_filter_append [simp]:
  "List.map_filter f (xs @ ys) = List.map_filter f xs @ List.map_filter f ys"
  by (simp add: List.map_filter_def)

lemma map_filter_concat:
  "List.map_filter f (concat xss) = concat (map (List.map_filter f) xss)"
  by (induction xss) simp_all

lemma concat_map_Nil [simp]: "concat (map (\<lambda>x. []) xs) = []"
  by (induction xs) simp_all

lemma concat_map_single [simp]: "concat (map (\<lambda>x. [g x]) xs) = map g xs"
  by (induction xs) simp_all

subsection \<open>The blocks of the drawing\<close>

lemma py_index_range:
  assumes "i \<in> set (py_range 0 n 1)"
  shows "py_index (map f (py_range 0 n 1)) i = Inr (f i)"
proof -
  from py_range_bounds [OF assms] have b: "0 \<le> i" "i < n" by simp_all
  have "[0..n - 1] ! nat i = 0 + int (nat i)"
    by (rule nth_upto) (use b in simp)
  then show ?thesis
    using b by (simp add: py_index_def py_range_upto)
qed

lemma qubit_lines_eq:
  "qubit_lines n =
     (concat (map (\<lambda>i.
        [Hlines (PyInt (i + 1)) (PyFloat (Fin (1 / 2))) (PyFloat (Fin (39 / 2)))
           [(''color'', PyStr ''black''), (''linewidth'', PyInt 1)],
         Text (PyInt 0) (PyInt (i + 1)) (''$q_'' @ py_str i @ ''$'')
           [(''va'', PyStr ''center''), (''ha'', PyStr ''right''),
            (''fontsize'', PyInt 12), (''color'', PyStr ''darkcyan'')]])
        (py_range 0 n 1)), None)"
  unfolding qubit_lines_def Let_def
  by (rule for_in_cong_ok) (simp add: py_index_range seq_ok emit_def)

lemma range1_small:
  "i \<in> set (py_range 0 n 1) \<Longrightarrow> n < float_int_bound \<Longrightarrow> \<bar>i + 1\<bar> < float_int_bound"
  using py_range_bounds [of i 0 n 1] by simp

lemma range2_small:
  assumes "i \<in> set (py_range a (n - 1) 2)" "0 \<le> a" "n < float_int_bound"
  shows "\<bar>i + 1\<bar> < float_int_bound" and "\<bar>i + 2\<bar> < float_int_bound"
  using py_range_bounds [OF assms(1)] assms(2,3) by simp_all

lemma rotation_layer_eq:
  assumes "n < float_int_bound"
  shows "rotation_layer n x_rot k =
     (concat (map (\<lambda>i.
        [Add_patch (Rectangle (PyFloat x_rot,
             PyFloat (fsub (round_to_double (of_int (i + 1))) (Fin (1 / 4))))
           (PyFloat (Fin 1)) (PyFloat (Fin (1 / 2)))
           [(''facecolor'', PyStr ''lightblue''), (''edgecolor'', PyStr ''blue''),
            (''alpha'', PyFloat (float_lit (7 / 10)))]),
         Text (PyFloat (fadd x_rot (Fin (1 / 2)))) (PyInt (i + 1)) (rotation_label k)
           [(''ha'', PyStr ''center''), (''va'', PyStr ''center''), (''fontsize'', PyInt 7)]])
        (py_range 0 n 1)), None)"
  unfolding rotation_layer_def Let_def using assms
  by (intro for_in_cong_ok)
     (simp add: range1_small int_sub_float_eq seq_ok emit_def rotation_label_def)

lemma measurement_block_eq:
  assumes "n < float_int_bound"
  shows "measurement_block n =
     (concat (map (\<lambda>i.
        [Add_patch (Rectangle (PyFloat (Fin (35 / 2)),
             PyFloat (fsub (round_to_double (of_int (i + 1))) (Fin (1 / 4))))
           (PyFloat (Fin (3 / 2))) (PyFloat (Fin (1 / 2)))
           [(''facecolor'', PyStr ''lightcoral''), (''edgecolor'', PyStr ''red''),
            (''hatch'', PyStr ''//''), (''alpha'', PyFloat (float_lit (9 / 10)))]),
         Text (PyFloat (fadd (Fin (35 / 2)) (Fin (3 / 4)))) (PyInt (i + 1))
           (''Obs ($'' @ backslash @ ''hat{O}$)'')
           [(''ha'', PyStr ''center''), (''va'', PyStr ''center''),
            (''fontsize'', PyInt 7), (''color'', PyStr ''black'')]])
        (py_range 0 n 1)), None)"
  unfolding measurement_block_def Let_def using assms
  by (intro for_in_cong_ok)
     (simp add: range1_small int_sub_float_eq seq_ok emit_def)

lemma cnot_pass_eq:
  assumes "n < float_int_bound" "0 \<le> start"
  shows "cnot_pass n start x_pos colour =
     (concat (map (\<lambda>i.
        [Vlines (PyList [PyFloat x_pos])
           (PyFloat (fadd (round_to_double (of_int (i + 1))) (Fin (1 / 4))))
           (PyFloat (fsub (round_to_double (of_int (i + 2))) (Fin (1 / 4))))
           [(''color'', PyStr colour), (''linestyle'', PyStr ''-''),
            (''linewidth'', PyFloat (Fin (3 / 2)))],
         Plot (PyFloat x_pos) (PyInt (i + 1)) ''o''
           [(''color'', PyStr colour), (''markersize'', PyInt 4)],
         Plot (PyFloat x_pos) (PyInt (i + 2)) ''x''
           [(''color'', PyStr colour), (''marker'', PyStr ''+''), (''markersize'', PyInt 8)]])
        (py_range start (n - 1) 2)), None)"
  unfolding cnot_pass_def Let_def using assms
  by (intro for_in_cong_ok)
     (simp add: range2_small int_sub_float_eq int_add_float_eq seq_ok emit_def)

lemma captions_eq:
  assumes "\<bar>n\<bar> < float_int_bound"
  shows "captions n =
     ([Text (PyFloat (Fin (19 / 2)))
         (PyFloat (fadd (round_to_double (of_int n)) (float_lit (7 / 10))))
         (''PHASE 2: HYBRID QUANTUM COMPUTATION (VQE $'' @ backslash @ ''rightarrow$ QSE)'')
         [(''ha'', PyStr ''center''), (''va'', PyStr ''center''),
          (''fontsize'', PyInt 12), (''color'', PyStr ''darkgreen'')],
       Text (PyFloat (Fin 2)) (PyFloat (Fin (1 / 2))) ''VQE STATE PREPARATION''
         [(''ha'', PyStr ''center''), (''va'', PyStr ''center''),
          (''fontsize'', PyInt 10), (''color'', PyStr ''blue'')],
       Text (PyFloat (Fin 17)) (PyFloat (Fin (1 / 2))) ''QSE MEASUREMENT & DIAGONALIZATION''
         [(''ha'', PyStr ''center''), (''va'', PyStr ''center''),
          (''fontsize'', PyInt 10), (''color'', PyStr ''red'')]], None)"
  using assms by (simp add: captions_def int_add_float_eq seq_ok emit_def)

lemma layer_start_x_index:
  "k \<in> set (py_range 0 3 1) \<Longrightarrow> py_index layer_start_x k = Inr (layer_start_x ! nat k)"
  using py_range_bounds [of k 0 3 1] by (simp add: py_index_def layer_start_x_def)

lemma layer_eq:
  assumes "n < float_int_bound" "k \<in> set (py_range 0 3 1)"
  shows "layer n k =
     (fst (rotation_layer n (layer_start_x ! nat k) k)
        @ fst (cnot_pass n 0 (x_ent (nat k)) ''red'')
        @ fst (cnot_pass n 1 (x_ent_offset (nat k)) ''orange''), None)"
  using assms
  by (simp add: layer_def layer_start_x_index Let_def seq_ok rotation_layer_eq cnot_pass_eq
        x_ent_def x_ent_offset_def)

lemma layers_eq:
  assumes "n < float_int_bound"
  shows "for_in (py_range 0 3 1) (layer n) =
     (concat (map (\<lambda>k. fst (rotation_layer n (layer_start_x ! nat k) k)
        @ fst (cnot_pass n 0 (x_ent (nat k)) ''red'')
        @ fst (cnot_pass n 1 (x_ent_offset (nat k)) ''orange'')) (py_range 0 3 1)), None)"
  using assms by (intro for_in_cong_ok) (simp add: layer_eq)

lemma py_range_0_3: "py_range 0 3 1 = [0, 1, 2]"
  by (simp add: py_range_upto upto_rec1)

text \<open>The whole drawing, for a qubit count that converts to a float.\<close>

lemma draw_body_eq:
  assumes "\<bar>num_qubits a\<bar> < float_int_bound"
  shows "draw_body a =
     ([Set_title ''VQE UCCSD Ansatz Architecture (8 Qubits, 3 Repetitions)''
         [(''fontsize'', PyInt 14)],
       Set_xlim (PyInt 0) (PyInt 20),
       Set_ylim (PyInt 0) (PyInt (num_qubits a + 1)),
       Axis ''off'']
      @ fst (qubit_lines (num_qubits a))
      @ fst (captions (num_qubits a))
      @ concat (map (\<lambda>k. fst (rotation_layer (num_qubits a) (layer_start_x ! nat k) k)
          @ fst (cnot_pass (num_qubits a) 0 (x_ent (nat k)) ''red'')
          @ fst (cnot_pass (num_qubits a) 1 (x_ent_offset (nat k)) ''orange'')) [0, 1, 2])
      @ fst (measurement_block (num_qubits a))
      @ fst summary_label, None)"
proof -
  have n: "num_qubits a < float_int_bound" using assms by simp
  show ?thesis
    by (simp add: draw_body_def Let_def seq_ok emit_def qubit_lines_eq captions_eq [OF assms]
          layers_eq [OF n] measurement_block_eq [OF n] summary_label_def
          py_range_0_3 [symmetric])
qed


subsection \<open>What the drawing contains\<close>

lemma map_filter_concat_map:
  "List.map_filter f (concat (map g xs)) = concat (map (\<lambda>x. List.map_filter f (g x)) xs)"
  by (induction xs) simp_all

lemmas block_eqs = qubit_lines_eq captions_eq rotation_layer_eq cnot_pass_eq
  measurement_block_eq summary_label_def emit_def

lemma py_str_digits [simp]: "py_str 0 = ''0''" "py_str 1 = ''1''" "py_str 2 = ''2''"
  by (simp_all add: py_str_def str_nat.simps digit_char_def)

lemma drawn_qubit_lines:
  assumes "\<bar>num_qubits a\<bar> < float_int_bound"
  shows "qubit_lines_drawn (fst (draw_body a)) = py_range 0 (num_qubits a) 1"
proof -
  have n: "num_qubits a < float_int_bound" using assms by simp
  show ?thesis
    by (simp add: draw_body_eq [OF assms] qubit_lines_drawn_def block_eqs assms n
          map_filter_concat_map)
qed

lemma drawn_index_labels:
  assumes "\<bar>num_qubits a\<bar> < float_int_bound"
  shows "index_labels_drawn (fst (draw_body a))
       = map (\<lambda>i. (i, ''$q_'' @ py_str i @ ''$'')) (py_range 0 (num_qubits a) 1)"
proof -
  have n: "num_qubits a < float_int_bound" using assms by simp
  show ?thesis
    by (simp add: draw_body_eq [OF assms] index_labels_drawn_def block_eqs assms n
          map_filter_concat_map)
qed















subsection \<open>Qubit counts beyond the floats\<close>

lemma floor_log2_minus [simp]: "floor_log2 (- q) = floor_log2 q"
  by (simp add: floor_log2_def)

lemma round_to_double_minus: "round_to_double (- q) = fneg (round_to_double q)"
proof (cases "q = 0")
  case True
  then show ?thesis by (simp add: round_to_double_def)
next
  case False
  define r where "r = of_int (round_half_even (q / ulp_of q)) * ulp_of q"
  have u: "ulp_of (- q) = ulp_of q" by (simp add: ulp_of_def)
  have m: "of_int (round_half_even (- q / ulp_of q)) * ulp_of q = - r"
    using round_half_even_minus [of "q / ulp_of q"] by (simp add: r_def)
  have nq: "- q \<noteq> 0" using False by simp
  show ?thesis
    unfolding round_to_double_unfold [OF nq] round_to_double_unfold [OF False] u Let_def m
      r_def [symmetric]
    by (auto simp: not_le)
qed

lemma int_to_float_overflow_abs:
  assumes "float_int_bound \<le> \<bar>i\<bar>"
  shows "int_to_float i = Inl OverflowError"
proof (cases "0 \<le> i")
  case True
  then show ?thesis
    using assms by (intro int_to_float_overflow) (simp add: float_int_bound_def)
next
  case False
  then have "2 ^ 1024 - 2 ^ 970 \<le> - i" using assms by (simp add: float_int_bound_def)
  then have "(of_int (2 ^ 1024 - 2 ^ 970) :: rat) \<le> of_int (- i)"
    by (simp only: of_int_le_iff)
  then have "(2 ^ 1024 - 2 ^ 970 :: rat) \<le> - of_int i" by simp
  from round_to_double_overflow [OF this] have "round_to_double (- of_int i) = PInf" .
  then have "fneg (round_to_double (of_int i)) = PInf"
    by (simp add: round_to_double_minus)
  then have "round_to_double (of_int i) = NInf"
    by (cases "round_to_double (of_int i)") simp_all
  then show ?thesis by (simp add: int_to_float_def)
qed

text \<open>A qubit count too large for a float: the qubit lines are drawn, then the banner
  position \<open>num_qubits + 0.7\<close> raises.\<close>

lemma draw_body_overflow:
  assumes "float_int_bound \<le> \<bar>num_qubits a\<bar>"
  shows "draw_body a =
     ([Set_title ''VQE UCCSD Ansatz Architecture (8 Qubits, 3 Repetitions)''
         [(''fontsize'', PyInt 14)],
       Set_xlim (PyInt 0) (PyInt 20),
       Set_ylim (PyInt 0) (PyInt (num_qubits a + 1)),
       Axis ''off'']
      @ fst (qubit_lines (num_qubits a)), Some OverflowError)"
  by (simp add: draw_body_def Let_def seq_ok emit_def qubit_lines_eq captions_def
        int_add_float_def int_to_float_overflow_abs [OF assms])

lemma draw_body_outcome:
  "snd (draw_body a) = (if \<bar>num_qubits a\<bar> < float_int_bound then None else Some OverflowError)"
  by (simp add: draw_body_eq draw_body_overflow not_less)

lemma drawn_qubit_lines_all:
  "qubit_lines_drawn (fst (draw_body a)) = py_range 0 (num_qubits a) 1"
proof (cases "\<bar>num_qubits a\<bar> < float_int_bound")
  case True
  then show ?thesis by (rule drawn_qubit_lines)
next
  case False
  then have "float_int_bound \<le> \<bar>num_qubits a\<bar>" by simp
  then show ?thesis
    by (simp add: draw_body_overflow qubit_lines_drawn_def qubit_lines_eq map_filter_concat_map)
qed

lemma drawn_index_labels_all:
  "index_labels_drawn (fst (draw_body a))
     = map (\<lambda>i. (i, ''$q_'' @ py_str i @ ''$'')) (py_range 0 (num_qubits a) 1)"
proof (cases "\<bar>num_qubits a\<bar> < float_int_bound")
  case True
  then show ?thesis by (rule drawn_index_labels)
next
  case False
  then have "float_int_bound \<le> \<bar>num_qubits a\<bar>" by simp
  then show ?thesis
    by (simp add: draw_body_overflow index_labels_drawn_def qubit_lines_eq map_filter_concat_map)
qed



lemma draw_body_no_TypeError: "snd (draw_body a) \<noteq> Some TypeError"
  by (simp add: draw_body_outcome)

subsection \<open>Calls of \<open>draw\<close>\<close>

lemma bind_draw_None:
  "bind_draw args kws = None \<longleftrightarrow> ''self'' \<notin> set (map fst kws) \<and> distinct (map fst kws)"
  by (simp add: bind_draw_def)

lemma bind_draw_cases: "bind_draw args kws = None \<or> bind_draw args kws = Some TypeError"
  by (simp add: bind_draw_def)

lemma draw_body_num_qubits:
  "num_qubits a = num_qubits b \<Longrightarrow> draw_body a = draw_body b"
  by (simp add: draw_body_def)

lemma drawn_calls_draw:
  "drawn_calls (draw a args kws plt) = (if bind_draw args kws = None then fst (draw_body a) else [])"
  using bind_draw_cases [of args kws] draw_body_no_TypeError [of a]
  by (auto simp: drawn_calls_def draw_def Let_def split: prod.splits option.splits)

lemma returned_geometry_draw:
  "returned_geometry (draw a args kws plt) =
     (case bind_draw args kws of
        Some e \<Rightarrow> Inl e
      | None \<Rightarrow> (case snd (draw_body a) of None \<Rightarrow> Inr (fst (draw_body a)) | Some e \<Rightarrow> Inl e))"
  by (simp add: returned_geometry_def draw_def Let_def split: prod.splits option.splits)

text \<open>A call whose arguments bind returns the figure exactly when the qubit count converts
  to a float.\<close>

lemma returned_geometry_eq:
  assumes "bind_draw args kws = None"
  shows "returned_geometry (draw a args kws plt) =
     (if \<bar>num_qubits a\<bar> < float_int_bound then Inr (fst (draw_body a))
      else Inl OverflowError)"
  by (simp add: returned_geometry_draw assms draw_body_outcome)

lemma draw_returns:
  assumes "\<bar>num_qubits a\<bar> < float_int_bound" "bind_draw args kws = None"
  shows "returned_geometry (draw a args kws plt) = Inr (drawn_calls (draw a args kws plt))"
    and "drawn_calls (draw a args kws plt) = fst (draw_body a)"
  by (simp_all add: returned_geometry_eq drawn_calls_draw assms)

lemma returned_figure:
  assumes "returned_geometry (draw a args kws plt) = Inr cs"
  shows "bind_draw args kws = None" and "\<bar>num_qubits a\<bar> < float_int_bound"
    and "cs = fst (draw_body a)" and "cs = drawn_calls (draw a args kws plt)"
proof -
  show b: "bind_draw args kws = None"
    using assms bind_draw_cases [of args kws] by (auto simp: returned_geometry_draw)
  show n: "\<bar>num_qubits a\<bar> < float_int_bound"
    using assms by (simp add: returned_geometry_eq [OF b] split: if_splits)
  show c: "cs = fst (draw_body a)"
    using assms n by (simp add: returned_geometry_eq [OF b])
  show "cs = drawn_calls (draw a args kws plt)"
    by (simp add: c drawn_calls_draw b)
qed

lemma num_qubits_init [simp]: "num_qubits (init n p) = n"
  by (simp add: init_def)

lemma small_in_bound: "\<bar>n\<bar> < 2 ^ 53 \<Longrightarrow> \<bar>n\<bar> < float_int_bound"
  by (simp add: float_int_bound_def)

subsection \<open>Ranges with step 2\<close>





subsection \<open>Connector calls\<close>

lemma drawn_connector_calls:
  assumes "\<bar>num_qubits a\<bar> < float_int_bound"
  shows "length (filter is_connector_call (fst (draw_body a)))
       = 9 * length (py_range 0 (num_qubits a - 1) 2)
         + 9 * length (py_range 1 (num_qubits a - 1) 2)"
proof -
  have n: "num_qubits a < float_int_bound" using assms by simp
  show ?thesis
    by (simp add: draw_body_eq [OF assms] block_eqs assms n filter_concat length_concat
          comp_def sum_list_triv)
qed


subsection \<open>A drawing without qubits\<close>

lemma draw_body_no_qubits:
  assumes "num_qubits a < 1" "\<bar>num_qubits a\<bar> < float_int_bound"
  shows "fst (draw_body a) =
     [Set_title ''VQE UCCSD Ansatz Architecture (8 Qubits, 3 Repetitions)''
        [(''fontsize'', PyInt 14)],
      Set_xlim (PyInt 0) (PyInt 20),
      Set_ylim (PyInt 0) (PyInt (num_qubits a + 1)),
      Axis ''off'']
     @ fst (captions (num_qubits a)) @ fst summary_label"
proof -
  have n: "num_qubits a < float_int_bound" using assms(2) by simp
  show ?thesis
    using assms(1)
    by (simp add: draw_body_eq [OF assms(2)] qubit_lines_eq rotation_layer_eq [OF n]
          cnot_pass_eq [OF n] measurement_block_eq [OF n] py_range_Nil)
qed

lemma length_captions: "\<bar>n\<bar> < float_int_bound \<Longrightarrow> length (fst (captions n)) = 3"
  by (simp add: captions_eq)

lemma captions_plain:
  assumes "\<bar>n\<bar> < float_int_bound"
  shows "qubit_lines_drawn (fst (captions n)) = []" "boxes_drawn colour (fst (captions n)) = []"
    "filter is_connector_call (fst (captions n)) = []"
  by (simp_all add: captions_eq [OF assms] qubit_lines_drawn_def boxes_drawn_def)

lemma summary_plain:
  "qubit_lines_drawn (fst summary_label) = []" "boxes_drawn colour (fst summary_label) = []"
  "filter is_connector_call (fst summary_label) = []" "length (fst summary_label) = 1"
  by (simp_all add: summary_label_def emit_def qubit_lines_drawn_def boxes_drawn_def)

lemma no_qubits_drawing:
  assumes "num_qubits a < 1" "\<bar>num_qubits a\<bar> < float_int_bound"
  shows "length (fst (draw_body a)) = 8"
    and "qubit_lines_drawn (fst (draw_body a)) = []"
    and "boxes_drawn colour (fst (draw_body a)) = []"
    and "filter is_connector_call (fst (draw_body a)) = []"
proof -
  note cs = draw_body_no_qubits [OF assms]
  note c = assms(2)
  show "length (fst (draw_body a)) = 8"
    by (simp add: cs length_captions [OF c] summary_plain)
  show "qubit_lines_drawn (fst (draw_body a)) = []"
    using captions_plain(1) [OF c] summary_plain(1)
    by (simp add: cs qubit_lines_drawn_def)
  show "boxes_drawn colour (fst (draw_body a)) = []"
    using captions_plain(2) [OF c, of colour] summary_plain(2) [of colour]
    by (simp add: cs boxes_drawn_def)
  show "filter is_connector_call (fst (draw_body a)) = []"
    by (simp add: cs captions_plain [OF c] summary_plain)
qed

subsection \<open>Float sums in \<open>run_vqe_qse\<close>\<close>

lemma fadd_near:
  assumes "\<bar>a + b\<bar> < pow2 E" "- 1074 \<le> E" "E \<le> 1023"
  shows "\<exists>r. fadd (Fin a) (Fin b) = Fin r
           \<and> \<bar>r - (a + b)\<bar> \<le> pow2 (max (E - 53) (- 1074)) / 2 \<and> \<bar>r\<bar> \<le> pow2 E"
  using round_to_double_near [OF assms] by simp

lemma fsub_Fin: "fsub (Fin a) (Fin b) = fadd (Fin a) (Fin (- b))"
  by (simp add: fsub_def)

lemma fdiv_nonzero: "b \<noteq> 0 \<Longrightarrow> \<exists>r. fdiv a (Fin b) = Inr r"
  by (cases a) simp_all

text \<open>The three float literals of \<open>run_vqe_qse\<close> are finite doubles next to their decimal
  values.\<close>

lemma energy_literals:
  "\<exists>c1 c2 c3. float_lit (45 / 1000) = Fin c1 \<and> float_lit (2 / 1000) = Fin c2
     \<and> float_lit (19 / 10000) = Fin c3
     \<and> \<bar>c1 - 45 / 1000\<bar> \<le> 1 / 2 ^ 58 \<and> \<bar>c2 - 2 / 1000\<bar> \<le> 1 / 2 ^ 62
     \<and> \<bar>c3 - 19 / 10000\<bar> \<le> 1 / 2 ^ 63"
proof -
  have "\<bar>45 / 1000 :: rat\<bar> < pow2 (- 4)" by simp
  from round_to_double_near [OF this] obtain c1 where
    c1: "round_to_double (45 / 1000) = Fin c1" "\<bar>c1 - 45 / 1000\<bar> \<le> pow2 (max (- 4 - 53) (- 1074)) / 2"
    by auto
  have "\<bar>2 / 1000 :: rat\<bar> < pow2 (- 8)" by simp
  from round_to_double_near [OF this] obtain c2 where
    c2: "round_to_double (2 / 1000) = Fin c2" "\<bar>c2 - 2 / 1000\<bar> \<le> pow2 (max (- 8 - 53) (- 1074)) / 2"
    by auto
  have "\<bar>19 / 10000 :: rat\<bar> < pow2 (- 9)" by simp
  from round_to_double_near [OF this] obtain c3 where
    c3: "round_to_double (19 / 10000) = Fin c3"
      "\<bar>c3 - 19 / 10000\<bar> \<le> pow2 (max (- 9 - 53) (- 1074)) / 2"
    by auto
  from c1(2) have "\<bar>c1 - 45 / 1000\<bar> \<le> 1 / 2 ^ 58" by simp
  moreover from c2(2) have "\<bar>c2 - 2 / 1000\<bar> \<le> 1 / 2 ^ 62" by simp
  moreover from c3(2) have "\<bar>c3 - 19 / 10000\<bar> \<le> 1 / 2 ^ 63" by simp
  ultimately show ?thesis
    using c1(1) c2(1) c3(1) by (auto simp: float_lit_def)
qed

lemma energies_in_range:
  assumes x: "\<bar>x\<bar> \<le> 2 ^ 32"
  shows "\<exists>v q f. run_vqe_qse qubit_op nq np nre (Fin x) = Inr (init nq np, Fin v, Fin q, Fin f)
     \<and> Fin v = fadd (Fin x) (float_lit (45 / 1000))
     \<and> Fin q = fadd (Fin x) (float_lit (2 / 1000))
     \<and> Fin f = fadd (fadd (Fin x) (float_lit (2 / 1000))) (fneg (float_lit (19 / 10000)))
     \<and> \<bar>v - (x + 45 / 1000)\<bar> < 1 / 1000000
     \<and> \<bar>q - (x + 2 / 1000)\<bar> < 1 / 1000000
     \<and> \<bar>f - (x + 1 / 10000)\<bar> < 1 / 1000000"
proof -
  from energy_literals obtain c1 c2 c3 where
    l1: "float_lit (45 / 1000) = Fin c1" and l2: "float_lit (2 / 1000) = Fin c2"
    and l3: "float_lit (19 / 10000) = Fin c3"
    and e1: "\<bar>c1 - 45 / 1000\<bar> \<le> 1 / 2 ^ 58" and e2: "\<bar>c2 - 2 / 1000\<bar> \<le> 1 / 2 ^ 62"
    and e3: "\<bar>c3 - 19 / 10000\<bar> \<le> 1 / 2 ^ 63"
    by blast
  have s1: "(1 / 2 ^ 58 :: rat) \<le> 1 / 1000000000" "(1 / 2 ^ 62 :: rat) \<le> 1 / 1000000000"
    "(1 / 2 ^ 63 :: rat) \<le> 1 / 1000000000" by simp_all
  have b1: "\<bar>c1 - 45 / 1000\<bar> \<le> 1 / 1000000000" using e1 s1(1) by linarith
  have b2: "\<bar>c2 - 2 / 1000\<bar> \<le> 1 / 1000000000" using e2 s1(2) by linarith
  have b3: "\<bar>c3 - 19 / 10000\<bar> \<le> 1 / 1000000000" using e3 s1(3) by linarith
  define B :: rat where "B = 2 ^ 32"
  have B: "\<bar>x\<bar> \<le> B" "B + 1 < pow2 33" using x by (simp_all add: B_def)
  have h: "pow2 (max (33 - 53) (- 1074)) / 2 = 1 / 2 ^ 21"
    "pow2 (max (0 - 53) (- 1074)) / 2 = 1 / 2 ^ 54" by simp_all
  have s2: "(1 / 2 ^ 21 :: rat) \<le> 48 / 100000000" "(1 / 2 ^ 54 :: rat) \<le> 1 / 1000000000" by simp_all
  \<comment> \<open>the VQE energy\<close>
  have "\<bar>x + c1\<bar> < pow2 33" using B b1 by linarith
  from fadd_near [OF this] obtain v where
    v: "fadd (Fin x) (Fin c1) = Fin v" and ev': "\<bar>v - (x + c1)\<bar> \<le> pow2 (max (33 - 53) (- 1074)) / 2"
    by auto
  have ev: "\<bar>v - (x + c1)\<bar> \<le> 48 / 100000000" using ev' s2(1) unfolding h by linarith
  \<comment> \<open>the QSE energy\<close>
  have "\<bar>x + c2\<bar> < pow2 33" using B b2 by linarith
  from fadd_near [OF this] obtain q where
    q: "fadd (Fin x) (Fin c2) = Fin q" and eq': "\<bar>q - (x + c2)\<bar> \<le> pow2 (max (33 - 53) (- 1074)) / 2"
    by auto
  have eq: "\<bar>q - (x + c2)\<bar> \<le> 48 / 100000000" using eq' s2(1) unfolding h by linarith
  \<comment> \<open>the final energy\<close>
  have "\<bar>q + (- c3)\<bar> < pow2 33" using B b2 b3 eq by linarith
  from fadd_near [OF this] obtain f where
    f: "fadd (Fin q) (Fin (- c3)) = Fin f"
    and ef': "\<bar>f - (q + (- c3))\<bar> \<le> pow2 (max (33 - 53) (- 1074)) / 2"
    by auto
  have ef: "\<bar>f - (q - c3)\<bar> \<le> 48 / 100000000" using ef' s2(1) unfolding h by linarith
  \<comment> \<open>the VQE error is not zero\<close>
  have "\<bar>v + (- x)\<bar> < pow2 0" using b1 ev unfolding pow2_0 by linarith
  from fadd_near [OF this] obtain d where
    d: "fadd (Fin v) (Fin (- x)) = Fin d"
    and ed': "\<bar>d - (v + (- x))\<bar> \<le> pow2 (max (0 - 53) (- 1074)) / 2"
    by auto
  have ed: "\<bar>d - (v - x)\<bar> \<le> 1 / 1000000000" using ed' s2(2) unfolding h by linarith
  have d0: "\<bar>d\<bar> \<noteq> 0" using ed ev b1 by linarith
  have "\<bar>q + (- x)\<bar> < pow2 0" using b2 eq unfolding pow2_0 by linarith
  from fadd_near [OF this] obtain d2 where
    d2: "fadd (Fin q) (Fin (- x)) = Fin d2"
    by auto
  from fdiv_nonzero [OF d0] obtain ratio where
    ratio: "fdiv (fsub (Fin \<bar>d\<bar>) (Fin \<bar>d2\<bar>)) (Fin \<bar>d\<bar>) = Inr ratio"
    by blast
  have run: "run_vqe_qse qubit_op nq np nre (Fin x) = Inr (init nq np, Fin v, Fin q, Fin f)"
    unfolding run_vqe_qse_def Let_def l1 l2 l3 v q fsub_Fin d d2 fabs.simps fneg.simps f
    using ratio [unfolded fsub_Fin] by simp
  have nv: "\<bar>v - (x + 45 / 1000)\<bar> < 1 / 1000000" using ev b1 by linarith
  have nq: "\<bar>q - (x + 2 / 1000)\<bar> < 1 / 1000000" using eq b2 by linarith
  have nf: "\<bar>f - (x + 1 / 10000)\<bar> < 1 / 1000000" using ef eq b2 b3 by linarith
  show ?thesis
    unfolding l1 l2 l3 fneg.simps v q f using run nv nq nf by blast
qed

text \<open>Sums with a reference energy of \<open>2^48\<close>, where the doubles are \<open>1/16\<close> apart above
  and \<open>1/32\<close> apart below, and of \<open>2^60\<close>, where they are 256 apart.\<close>

lemma sums_at_2_48:
  assumes "\<bar>c1 - 45 / 1000\<bar> \<le> 1 / 1000000000" "\<bar>c2 - 2 / 1000\<bar> \<le> 1 / 1000000000"
    "\<bar>c3 - 19 / 10000\<bar> \<le> 1 / 1000000000"
  shows "fadd (Fin (2 ^ 48)) (Fin c1) = Fin (2 ^ 48 + 1 / 16)"
    and "fadd (Fin (2 ^ 48)) (Fin c2) = Fin (2 ^ 48)"
    and "fadd (Fin (2 ^ 48)) (Fin (- c3)) = Fin (2 ^ 48)"
proof -
  have r1: "1 / 25 < c1" "c1 < 1 / 20" using assms(1) by linarith+
  have r2: "1 / 1000 < c2" "c2 < 3 / 1000" using assms(2) by linarith+
  have r3: "1 / 1000 < c3" "c3 < 2 / 1000" using assms(3) by linarith+
  have u: "pow2 (max (48 - 52) (- 1074)) = 1 / 16" "pow2 (max (47 - 52) (- 1074)) = 1 / 32"
    by simp_all
  have p: "pow2 48 = 281474976710656" "pow2 (48 + 1) = 562949953421312"
    "pow2 47 = 140737488355328" "pow2 (47 + 1) = 281474976710656"
    by simp_all
  have "round_to_double (281474976710656 + c1)
      = Fin (of_int 4503599627370497 * pow2 (max (48 - 52) (- 1074)))"
  proof (rule round_to_double_eval)
    show "pow2 48 \<le> \<bar>281474976710656 + c1\<bar>" unfolding p using assms(1) by linarith
    show "\<bar>281474976710656 + c1\<bar> < pow2 (48 + 1)" unfolding p using assms(1) by linarith
    show "of_int 4503599627370497 - 1 / 2
        < (281474976710656 + c1) / pow2 (max (48 - 52) (- 1074))"
      unfolding u using r1 by simp
    show "(281474976710656 + c1) / pow2 (max (48 - 52) (- 1074))
        < of_int 4503599627370497 + 1 / 2"
      unfolding u using r1 by simp
    show "\<bar>of_int 4503599627370497 * pow2 (max (48 - 52) (- 1074))\<bar> < 2 ^ 1024"
      unfolding u by simp
  qed
  then show "fadd (Fin (2 ^ 48)) (Fin c1) = Fin (2 ^ 48 + 1 / 16)"
    unfolding u by simp
  have "round_to_double (281474976710656 + c2)
      = Fin (of_int 4503599627370496 * pow2 (max (48 - 52) (- 1074)))"
  proof (rule round_to_double_eval)
    show "pow2 48 \<le> \<bar>281474976710656 + c2\<bar>" unfolding p using assms(2) by linarith
    show "\<bar>281474976710656 + c2\<bar> < pow2 (48 + 1)" unfolding p using assms(2) by linarith
    show "of_int 4503599627370496 - 1 / 2
        < (281474976710656 + c2) / pow2 (max (48 - 52) (- 1074))"
      unfolding u using r2 by simp
    show "(281474976710656 + c2) / pow2 (max (48 - 52) (- 1074))
        < of_int 4503599627370496 + 1 / 2"
      unfolding u using r2 by simp
    show "\<bar>of_int 4503599627370496 * pow2 (max (48 - 52) (- 1074))\<bar> < 2 ^ 1024"
      unfolding u by simp
  qed
  then show "fadd (Fin (2 ^ 48)) (Fin c2) = Fin (2 ^ 48)"
    unfolding u by simp
  have "round_to_double (281474976710656 + - c3)
      = Fin (of_int 9007199254740992 * pow2 (max (47 - 52) (- 1074)))"
  proof (rule round_to_double_eval)
    show "pow2 47 \<le> \<bar>281474976710656 + - c3\<bar>" unfolding p using assms(3) by linarith
    show "\<bar>281474976710656 + - c3\<bar> < pow2 (47 + 1)" unfolding p using assms(3) by linarith
    show "of_int 9007199254740992 - 1 / 2
        < (281474976710656 + - c3) / pow2 (max (47 - 52) (- 1074))"
      unfolding u using r3 by simp
    show "(281474976710656 + - c3) / pow2 (max (47 - 52) (- 1074))
        < of_int 9007199254740992 + 1 / 2"
      unfolding u using r3 by simp
    show "\<bar>of_int 9007199254740992 * pow2 (max (47 - 52) (- 1074))\<bar> < 2 ^ 1024"
      unfolding u by simp
  qed
  then show "fadd (Fin (2 ^ 48)) (Fin (- c3)) = Fin (2 ^ 48)"
    unfolding u by simp
qed

lemma sum_at_2_60:
  assumes "\<bar>c1 - 45 / 1000\<bar> \<le> 1 / 1000000000"
  shows "fadd (Fin (2 ^ 60)) (Fin c1) = Fin (2 ^ 60)"
proof -
  have r1: "1 / 25 < c1" "c1 < 1 / 20" using assms by linarith+
  have u: "pow2 (max (60 - 52) (- 1074)) = 256"
    by simp
  have p: "pow2 60 = 1152921504606846976" "pow2 (60 + 1) = 2305843009213693952"
    by simp_all
  have "round_to_double (1152921504606846976 + c1)
      = Fin (of_int 4503599627370496 * pow2 (max (60 - 52) (- 1074)))"
  proof (rule round_to_double_eval)
    show "pow2 60 \<le> \<bar>1152921504606846976 + c1\<bar>" unfolding p using assms by linarith
    show "\<bar>1152921504606846976 + c1\<bar> < pow2 (60 + 1)" unfolding p using assms by linarith
    show "of_int 4503599627370496 - 1 / 2
        < (1152921504606846976 + c1) / pow2 (max (60 - 52) (- 1074))"
      unfolding u using r1 by simp
    show "(1152921504606846976 + c1) / pow2 (max (60 - 52) (- 1074))
        < of_int 4503599627370496 + 1 / 2"
      unfolding u using r1 by simp
    show "\<bar>of_int 4503599627370496 * pow2 (max (60 - 52) (- 1074))\<bar> < 2 ^ 1024"
      unfolding u by simp
  qed
  then show ?thesis
    unfolding u by simp
qed

lemma energy_literals_coarse:
  "\<exists>c1 c2 c3. float_lit (45 / 1000) = Fin c1 \<and> float_lit (2 / 1000) = Fin c2
     \<and> float_lit (19 / 10000) = Fin c3
     \<and> \<bar>c1 - 45 / 1000\<bar> \<le> 1 / 1000000000 \<and> \<bar>c2 - 2 / 1000\<bar> \<le> 1 / 1000000000
     \<and> \<bar>c3 - 19 / 10000\<bar> \<le> 1 / 1000000000"
proof -
  from energy_literals obtain c1 c2 c3 where
    l: "float_lit (45 / 1000) = Fin c1" "float_lit (2 / 1000) = Fin c2"
      "float_lit (19 / 10000) = Fin c3"
    and e1: "\<bar>c1 - 45 / 1000\<bar> \<le> 1 / 2 ^ 58" and e2: "\<bar>c2 - 2 / 1000\<bar> \<le> 1 / 2 ^ 62"
    and e3: "\<bar>c3 - 19 / 10000\<bar> \<le> 1 / 2 ^ 63"
    by blast
  have s1: "(1 / 2 ^ 58 :: rat) \<le> 1 / 1000000000" "(1 / 2 ^ 62 :: rat) \<le> 1 / 1000000000"
    "(1 / 2 ^ 63 :: rat) \<le> 1 / 1000000000" by simp_all
  have "\<bar>c1 - 45 / 1000\<bar> \<le> 1 / 1000000000" using e1 s1(1) by linarith
  moreover have "\<bar>c2 - 2 / 1000\<bar> \<le> 1 / 1000000000" using e2 s1(2) by linarith
  moreover have "\<bar>c3 - 19 / 10000\<bar> \<le> 1 / 1000000000" using e3 s1(3) by linarith
  ultimately show ?thesis using l by blast
qed

lemma final_equals_exact:
  "run_vqe_qse qubit_op nq np nre (Fin (2 ^ 48))
     = Inr (init nq np, Fin (2 ^ 48 + 1 / 16), Fin (2 ^ 48), Fin (2 ^ 48))"
proof -
  from energy_literals_coarse obtain c1 c2 c3 where
    l1: "float_lit (45 / 1000) = Fin c1" and l2: "float_lit (2 / 1000) = Fin c2"
    and l3: "float_lit (19 / 10000) = Fin c3"
    and b: "\<bar>c1 - 45 / 1000\<bar> \<le> 1 / 1000000000" "\<bar>c2 - 2 / 1000\<bar> \<le> 1 / 1000000000"
      "\<bar>c3 - 19 / 10000\<bar> \<le> 1 / 1000000000"
    by blast
  note s = sums_at_2_48 [OF b]
  have d: "fadd (Fin (2 ^ 48 + 1 / 16)) (Fin (- (2 ^ 48))) = Fin (1 / 16)"
    using round_to_double_dyadic [of 1 4] by simp
  have d2: "fadd (Fin (2 ^ 48)) (Fin (- (2 ^ 48))) = Fin 0"
    by (simp add: round_to_double_def)
  have "(1 / 16 :: rat) \<noteq> 0" by simp
  from fdiv_nonzero [OF this] obtain ratio where
    ratio: "fdiv (fadd (Fin (1 / 16)) (Fin (- 0))) (Fin (1 / 16)) = Inr ratio"
    by blast
  have a: "\<bar>1 / 16 :: rat\<bar> = 1 / 16" "\<bar>0 :: rat\<bar> = 0" by simp_all
  show ?thesis
    unfolding run_vqe_qse_def Let_def l1 l2 l3 s fsub_Fin d d2 fabs.simps fneg.simps a
    using ratio by simp
qed

lemma large_energy_raises:
  "run_vqe_qse qubit_op nq np nre (Fin (2 ^ 60)) = Inl ZeroDivisionError"
proof -
  from energy_literals_coarse obtain c1 where
    l1: "float_lit (45 / 1000) = Fin c1" and b: "\<bar>c1 - 45 / 1000\<bar> \<le> 1 / 1000000000"
    by blast
  note s = sum_at_2_60 [OF b]
  have d: "fadd (Fin (2 ^ 60)) (Fin (- (2 ^ 60))) = Fin 0"
    by (simp add: round_to_double_def)
  have a: "\<bar>0 :: rat\<bar> = 0" by simp
  show ?thesis
    unfolding run_vqe_qse_def Let_def l1 s fsub_Fin d fabs.simps a
    by simp
qed

text \<open>The reference energy of the main program, \<open>-40.176466\<close>, as a double.\<close>

lemma exact_energy_literal:
  "fneg (float_lit (40176466 / 1000000)) = Fin (- 5654334915833231 / 140737488355328)"
proof -
  have u: "pow2 (max (5 - 52) (- 1074)) = 1 / 140737488355328"
    by simp
  have "round_to_double (40176466 / 1000000)
      = Fin (of_int 5654334915833231 * pow2 (max (5 - 52) (- 1074)))"
  proof (rule round_to_double_eval)
    show "pow2 5 \<le> \<bar>40176466 / 1000000 :: rat\<bar>" by simp
    show "\<bar>40176466 / 1000000 :: rat\<bar> < pow2 (5 + 1)" by simp
    show "of_int 5654334915833231 - 1 / 2
        < (40176466 / 1000000 :: rat) / pow2 (max (5 - 52) (- 1074))"
      unfolding u by simp
    show "(40176466 / 1000000 :: rat) / pow2 (max (5 - 52) (- 1074))
        < of_int 5654334915833231 + 1 / 2"
      unfolding u by simp
    show "\<bar>of_int 5654334915833231 * pow2 (max (5 - 52) (- 1074))\<bar> < 2 ^ 1024"
      unfolding u by simp
  qed
  then show ?thesis
    unfolding u float_lit_def by simp
qed

section \<open>The specified properties\<close>

text \<open>
  C1, as amended. \<open>draw\<close> validates nothing and has no \<open>InvalidLayoutInput\<close> error. For
  every qubit count of magnitude below \<open>2^53\<close>, below 1 or not, and for every argument list
  that binds, \<open>draw\<close> does not raise and returns the figure it drew. With a qubit count
  below 1 that figure holds the title, the three axis settings, the phase banner, the two
  captions and the summary label (eight drawing calls), and no qubit line, box or
  connector.
\<close>

theorem draw_never_rejects:
  assumes "\<bar>num_qubits a\<bar> < 2 ^ 53" and "bind_draw args kws = None"
  shows "returned_geometry (draw a args kws plt) = Inr (drawn_calls (draw a args kws plt))
   \<and> (num_qubits a < 1 \<longrightarrow>
        length (drawn_calls (draw a args kws plt)) = 8
      \<and> qubit_lines_drawn (drawn_calls (draw a args kws plt)) = []
      \<and> boxes_drawn colour (drawn_calls (draw a args kws plt)) = []
      \<and> filter is_connector_call (drawn_calls (draw a args kws plt)) = [])"
proof -
  have c: "\<bar>num_qubits a\<bar> < float_int_bound"
    by (rule small_in_bound [OF assms(1)])
  note r = draw_returns [OF c assms(2)]
  show ?thesis
    using no_qubits_drawing(1,2,4) [OF _ c] no_qubits_drawing(3) [OF _ c, of colour]
    by (simp add: r)
qed

theorem draw_never_rejects_witness:
  "\<bar>num_qubits (init (- 3) ())\<bar> < 2 ^ 53
   \<and> bind_draw [PyStr ''mpl''] [(''fold'', PyInt (- 1))] = None
   \<and> returned_geometry (draw (init (- 3) ()) [PyStr ''mpl''] [(''fold'', PyInt (- 1))] [])
      = Inr (drawn_calls (draw (init (- 3) ()) [PyStr ''mpl''] [(''fold'', PyInt (- 1))] []))
   \<and> length (drawn_calls (draw (init (- 3) ()) [PyStr ''mpl''] [(''fold'', PyInt (- 1))] []))
      = 8
   \<and> boxes_drawn ''lightblue''
        (drawn_calls (draw (init (- 3) ()) [PyStr ''mpl''] [(''fold'', PyInt (- 1))] [])) = []"
proof -
  have n: "\<bar>num_qubits (init (- 3) ())\<bar> < 2 ^ 53" by simp
  have b: "bind_draw [PyStr ''mpl''] [(''fold'', PyInt (- 1))] = None"
    by (simp add: bind_draw_def)
  show ?thesis
    using n b draw_never_rejects [OF n b, of "[]" "''lightblue''"] by simp
qed

text \<open>
  The claim C1 itself fails: with zero qubits \<open>draw\<close> does not raise. It returns a figure
  with eight drawing calls in it, none of them a qubit line.
\<close>

theorem zero_qubits_accepted:
  "returned_geometry (draw (init 0 ()) [] [] []) = Inr (drawn_calls (draw (init 0 ()) [] [] []))
   \<and> length (drawn_calls (draw (init 0 ()) [] [] [])) = 8
   \<and> qubit_lines_drawn (drawn_calls (draw (init 0 ()) [] [] [])) = []"
proof -
  have c: "\<bar>num_qubits (init 0 ())\<bar> < float_int_bound"
    by (simp add: float_int_bound_def)
  have b: "bind_draw [] [] = None"
    by (simp add: bind_draw_def)
  have l: "num_qubits (init 0 ()) < 1" by simp
  show ?thesis
    by (simp only: draw_returns [OF c b] no_qubits_drawing [OF l c])
qed








text \<open>
  C5. For every qubit count of at least 1 the figure \<open>draw\<close> returns has exactly
  \<open>num_qubits\<close> horizontal qubit lines, those of the qubits 0 to \<open>num_qubits - 1\<close>, and
  exactly \<open>num_qubits\<close> index labels at x = 0, the label \<open>$q_i$\<close> at the height of qubit
  \<open>i\<close>. The figure is returned for every qubit count below \<open>2^53\<close>.
\<close>

theorem qubit_lines_and_labels:
  assumes "1 \<le> num_qubits a" and "bind_draw args kws = None"
  shows "(num_qubits a < 2 ^ 53 \<longrightarrow>
            returned_geometry (draw a args kws plt) = Inr (drawn_calls (draw a args kws plt)))
   \<and> (returned_geometry (draw a args kws plt) = Inr cs \<longrightarrow>
        qubit_lines_drawn cs = [0..num_qubits a - 1]
      \<and> length (qubit_lines_drawn cs) = nat (num_qubits a)
      \<and> index_labels_drawn cs
          = map (\<lambda>i. (i, ''$q_'' @ py_str i @ ''$'')) [0..num_qubits a - 1]
      \<and> length (index_labels_drawn cs) = nat (num_qubits a))"
proof -
  have ret: "returned_geometry (draw a args kws plt) = Inr (drawn_calls (draw a args kws plt))"
    if "num_qubits a < 2 ^ 53"
  proof -
    from that assms(1) have "\<bar>num_qubits a\<bar> < 2 ^ 53" by simp
    then show ?thesis
      by (intro draw_returns(1) small_in_bound assms(2))
  qed
  have fig: "qubit_lines_drawn cs = [0..num_qubits a - 1]
      \<and> length (qubit_lines_drawn cs) = nat (num_qubits a)
      \<and> index_labels_drawn cs
          = map (\<lambda>i. (i, ''$q_'' @ py_str i @ ''$'')) [0..num_qubits a - 1]
      \<and> length (index_labels_drawn cs) = nat (num_qubits a)"
    if r: "returned_geometry (draw a args kws plt) = Inr cs"
  proof -
    note f = returned_figure [OF r]
    have lines: "qubit_lines_drawn cs = [0..num_qubits a - 1]"
      unfolding f(3) drawn_qubit_lines [OF f(2)] py_range_upto ..
    have labels: "index_labels_drawn cs
          = map (\<lambda>i. (i, ''$q_'' @ py_str i @ ''$'')) [0..num_qubits a - 1]"
      unfolding f(3) drawn_index_labels [OF f(2)] py_range_upto ..
    show ?thesis
      unfolding lines labels using assms(1) by simp
  qed
  show ?thesis
    using ret fig by blast
qed

theorem qubit_lines_and_labels_witness:
  "1 \<le> num_qubits (init 3 ()) \<and> bind_draw [] [] = None
   \<and> returned_geometry (draw (init 3 ()) [] [] [])
      = Inr (drawn_calls (draw (init 3 ()) [] [] []))
   \<and> qubit_lines_drawn (drawn_calls (draw (init 3 ()) [] [] [])) = [0, 1, 2]
   \<and> index_labels_drawn (drawn_calls (draw (init 3 ()) [] [] []))
       = [(0, ''$q_0$''), (1, ''$q_1$''), (2, ''$q_2$'')]"
proof -
  have n: "1 \<le> num_qubits (init 3 ())" by simp
  have b: "bind_draw [] [] = None" by (simp add: bind_draw_def)
  show ?thesis
    using n b qubit_lines_and_labels [OF n b, of "[]" "drawn_calls (draw (init 3 ()) [] [] [])"]
    by (simp add: upto_rec1)
qed

text \<open>
  C6. With one qubit \<open>draw\<close> completes, whatever the (bound) arguments, a requested number
  of layers among them: it returns the figure, and the figure has no connector call, so
  no connector of either pass.
\<close>

theorem single_qubit_no_connectors:
  assumes "num_qubits a = 1" and "bind_draw args kws = None"
  shows "returned_geometry (draw a args kws plt) = Inr (drawn_calls (draw a args kws plt))
   \<and> filter is_connector_call (drawn_calls (draw a args kws plt)) = []
   \<and> links_drawn colour (drawn_calls (draw a args kws plt)) = []
   \<and> qubit_lines_drawn (drawn_calls (draw a args kws plt)) = [0]"
proof -
  have c: "\<bar>num_qubits a\<bar> < float_int_bound"
    by (simp add: assms(1) float_int_bound_def)
  note r = draw_returns [OF c assms(2)]
  have e: "py_range 0 (num_qubits a - 1) 2 = []" "py_range 1 (num_qubits a - 1) 2 = []"
    by (simp_all add: assms(1) py_range_Nil)
  have "length (filter is_connector_call (fst (draw_body a))) = 0"
    by (simp add: drawn_connector_calls [OF c] e)
  then have conn: "filter is_connector_call (fst (draw_body a)) = []"
    by simp
  have "link_of colour x = None" if "x \<in> set (fst (draw_body a))" for x
  proof (cases "is_connector_call x")
    case True
    then have "x \<in> set (filter is_connector_call (fst (draw_body a)))"
      using that by simp
    then show ?thesis by (simp add: conn)
  next
    case False
    then show ?thesis by (cases x) simp_all
  qed
  then have links: "links_drawn colour (fst (draw_body a)) = []"
    by (simp add: links_drawn_def List.map_filter_def filter_empty_conv)
  have lines: "qubit_lines_drawn (fst (draw_body a)) = [0]"
    by (simp add: drawn_qubit_lines [OF c] assms(1) py_range_upto)
  show ?thesis
    unfolding r using conn links lines by blast
qed

theorem single_qubit_no_connectors_witness:
  "num_qubits (init 1 ()) = 1
   \<and> bind_draw [PyInt 7] [(''repetitionLayers'', PyInt 7)] = None
   \<and> returned_geometry (draw (init 1 ()) [PyInt 7] [(''repetitionLayers'', PyInt 7)] [])
      = Inr (drawn_calls (draw (init 1 ()) [PyInt 7] [(''repetitionLayers'', PyInt 7)] []))
   \<and> filter is_connector_call
        (drawn_calls (draw (init 1 ()) [PyInt 7] [(''repetitionLayers'', PyInt 7)] [])) = []"
proof -
  have n: "num_qubits (init 1 ()) = 1" by simp
  have b: "bind_draw [PyInt 7] [(''repetitionLayers'', PyInt 7)] = None"
    by (simp add: bind_draw_def)
  show ?thesis
    using n b single_qubit_no_connectors [OF n b, of "[]" "''red''"] by blast
qed

text \<open>
  C7. Two calls of \<open>draw\<close> on the same ansatz produce the same geometry: the second call,
  made in the pyplot state the first one left behind (or in any other state), records and
  returns the same sequence of drawing calls with the same coordinates. Only the number of
  the figure differs.
\<close>

theorem draw_deterministic:
  "returned_geometry (draw a args kws (snd (draw a args kws plt)))
     = returned_geometry (draw a args kws plt)
   \<and> drawn_calls (draw a args kws (snd (draw a args kws plt)))
     = drawn_calls (draw a args kws plt)
   \<and> returned_geometry (draw a args kws plt') = returned_geometry (draw a args kws plt)
   \<and> drawn_calls (draw a args kws plt') = drawn_calls (draw a args kws plt)"
  by (simp add: returned_geometry_draw drawn_calls_draw)

text \<open>
  C8, as amended. The geometry depends on the field \<open>num_qubits\<close> only: two ansatz objects
  with the same \<open>num_qubits\<close>, whatever their \<open>num_particles\<close> (even of different types) and
  \<open>num_parameters\<close>, drawn in any pyplot states with any positional arguments and any
  keyword arguments that bind (no keyword named \<open>self\<close>, none given twice), give the same
  drawing calls with the same coordinates.
\<close>

theorem draw_reads_num_qubits_only:
  assumes "num_qubits a = num_qubits b"
    and "bind_draw args kws = None" and "bind_draw args' kws' = None"
  shows "returned_geometry (draw a args kws plt) = returned_geometry (draw b args' kws' plt')
       \<and> drawn_calls (draw a args kws plt) = drawn_calls (draw b args' kws' plt')"
proof -
  have eq: "draw_body a = draw_body b"
    by (rule draw_body_num_qubits [OF assms(1)])
  show ?thesis
    unfolding returned_geometry_draw drawn_calls_draw eq assms(2,3) by simp
qed

theorem draw_reads_num_qubits_only_witness:
  "num_qubits (init 8 (4 :: int, 4 :: int)) = num_qubits (init 8 ''none'')
   \<and> bind_draw [PyStr ''mpl''] [(''idle_wires'', PyBool False), (''fold'', PyInt (- 1))] = None
   \<and> bind_draw [] [] = None
   \<and> returned_geometry (draw (init 8 (4 :: int, 4 :: int))
         [PyStr ''mpl''] [(''idle_wires'', PyBool False), (''fold'', PyInt (- 1))] [])
       = returned_geometry (draw (init 8 ''none'') [] [] [])
   \<and> drawn_calls (draw (init 8 (4 :: int, 4 :: int))
         [PyStr ''mpl''] [(''idle_wires'', PyBool False), (''fold'', PyInt (- 1))] [])
       = drawn_calls (draw (init 8 ''none'') [] [] [])"
proof -
  have h: "num_qubits (init 8 (4 :: int, 4 :: int)) = num_qubits (init 8 ''none'')"
    by simp
  have b: "bind_draw [PyStr ''mpl''] [(''idle_wires'', PyBool False), (''fold'', PyInt (- 1))]
      = None"
    by (simp add: bind_draw_def)
  have b': "bind_draw [] [] = None"
    by (simp add: bind_draw_def)
  show ?thesis
    using h b b' draw_reads_num_qubits_only [OF h b b'] by blast
qed

text \<open>
  The claim C8 itself fails for a keyword argument named \<open>self\<close>: the call raises
  \<open>TypeError\<close> before the body of \<open>draw\<close> runs and draws nothing, while the same ansatz
  drawn without arguments returns its figure with the eight qubit lines.
\<close>

theorem keyword_self_rejected:
  "returned_geometry (draw (init 8 ()) [] [(''self'', PyInt 5)] []) = Inl TypeError
   \<and> drawn_calls (draw (init 8 ()) [] [(''self'', PyInt 5)] []) = []
   \<and> returned_geometry (draw (init 8 ()) [] [] [])
      = Inr (drawn_calls (draw (init 8 ()) [] [] []))
   \<and> qubit_lines_drawn (drawn_calls (draw (init 8 ()) [] [] [])) = [0, 1, 2, 3, 4, 5, 6, 7]"
proof -
  have n: "\<bar>num_qubits (init 8 ())\<bar> < float_int_bound"
    by (simp add: float_int_bound_def)
  have b: "bind_draw [] [] = None"
    by (simp add: bind_draw_def)
  have s: "bind_draw [] [(''self'', PyInt 5)] = Some TypeError"
    by (simp add: bind_draw_def)
  have l: "qubit_lines_drawn (drawn_calls (draw (init 8 ()) [] [] [])) = [0, 1, 2, 3, 4, 5, 6, 7]"
    by (simp add: draw_returns(2) [OF n b] drawn_qubit_lines [OF n] py_range_upto upto_rec1)
  show ?thesis
    using draw_returns(1) [OF n b] l by (simp add: returned_geometry_draw drawn_calls_draw s)
qed

text \<open>
  C9. \<open>decompose\<close> returns the ansatz it is called on, so drawing the decomposed ansatz
  is drawing the ansatz: same result and same pyplot state, for every argument list.
\<close>

theorem decompose_identity:
  "decompose a = a \<and> draw (decompose a) args kws plt = draw a args kws plt"
  by (simp add: decompose_def)

text \<open>
  C10, as amended. For every finite reference energy of magnitude at most \<open>2^32\<close>,
  \<open>run_vqe_qse\<close> returns, with the ansatz, the float sums \<open>exact_energy + 0.045\<close>,
  \<open>exact_energy + 0.002\<close> and \<open>(exact_energy + 0.002) + (-0.0019)\<close>. Each is within
  \<open>10^-6\<close> of the sum of the decimal values; in particular the final energy is within
  \<open>10^-6\<close> of \<open>exact_energy + 0.0001\<close> and never equal to the reference energy.
\<close>

theorem energies_offset:
  assumes "\<bar>x\<bar> \<le> 2 ^ 32"
  shows "\<exists>v q f. run_vqe_qse qubit_op nq np nre (Fin x) = Inr (init nq np, Fin v, Fin q, Fin f)
     \<and> Fin v = fadd (Fin x) (float_lit (45 / 1000))
     \<and> Fin q = fadd (Fin x) (float_lit (2 / 1000))
     \<and> Fin f = fadd (fadd (Fin x) (float_lit (2 / 1000))) (fneg (float_lit (19 / 10000)))
     \<and> \<bar>v - (x + 45 / 1000)\<bar> < 1 / 1000000
     \<and> \<bar>q - (x + 2 / 1000)\<bar> < 1 / 1000000
     \<and> \<bar>f - (x + 1 / 10000)\<bar> < 1 / 1000000
     \<and> \<not> feq (Fin f) (Fin x)"
proof -
  from energies_in_range [OF assms, of qubit_op nq np nre] obtain v q f where
    r: "run_vqe_qse qubit_op nq np nre (Fin x) = Inr (init nq np, Fin v, Fin q, Fin f)"
      "Fin v = fadd (Fin x) (float_lit (45 / 1000))"
      "Fin q = fadd (Fin x) (float_lit (2 / 1000))"
      "Fin f = fadd (fadd (Fin x) (float_lit (2 / 1000))) (fneg (float_lit (19 / 10000)))"
      "\<bar>v - (x + 45 / 1000)\<bar> < 1 / 1000000"
      "\<bar>q - (x + 2 / 1000)\<bar> < 1 / 1000000"
    and nf: "\<bar>f - (x + 1 / 10000)\<bar> < 1 / 1000000"
    by blast
  have "f \<noteq> x" using nf by linarith
  then have "\<not> feq (Fin f) (Fin x)" by simp
  then show ?thesis
    using r nf by blast
qed

theorem energies_offset_witness:
  "\<bar>- 5654334915833231 / 140737488355328 :: rat\<bar> \<le> 2 ^ 32
   \<and> (\<exists>v q f. run_vqe_qse \<lparr>op_num_qubits = 8\<rparr> 8 (4 :: int, 4 :: int)
          (float_lit (5922055 / 1000000)) (fneg (float_lit (40176466 / 1000000)))
        = Inr (init 8 (4, 4), Fin v, Fin q, Fin f)
      \<and> \<bar>f - (- 5654334915833231 / 140737488355328 + 1 / 10000)\<bar> < 1 / 1000000
      \<and> \<not> feq (Fin f) (fneg (float_lit (40176466 / 1000000))))"
proof -
  have h: "\<bar>- 5654334915833231 / 140737488355328 :: rat\<bar> \<le> 2 ^ 32" by simp
  from energies_offset [OF h, of "\<lparr>op_num_qubits = 8\<rparr>" 8 "(4 :: int, 4 :: int)"
      "float_lit (5922055 / 1000000)"]
  show ?thesis
    unfolding exact_energy_literal using h by blast
qed

text \<open>
  The claim C10 itself fails for large reference energies. At \<open>2^48\<close> neighbouring doubles
  are \<open>1/16\<close> apart: adding 0.002 and then -0.0019 changes nothing, and the final energy
  equals the reference energy. At \<open>2^60\<close> adding 0.045 changes nothing either, the VQE
  error is zero and the error reduction divides by it: the function raises
  \<open>ZeroDivisionError\<close> and returns no energies.
\<close>

theorem final_energy_equals_exact:
  "run_vqe_qse \<lparr>op_num_qubits = 8\<rparr> 8 (4 :: int, 4 :: int) (float_lit (5922055 / 1000000))
       (Fin (2 ^ 48))
     = Inr (init 8 (4, 4), Fin (2 ^ 48 + 1 / 16), Fin (2 ^ 48), Fin (2 ^ 48))
   \<and> feq (Fin (2 ^ 48)) (Fin (2 ^ 48))
   \<and> run_vqe_qse \<lparr>op_num_qubits = 8\<rparr> 8 (4 :: int, 4 :: int) (float_lit (5922055 / 1000000))
       (Fin (2 ^ 60))
     = Inl ZeroDivisionError"
  by (simp only: final_equals_exact large_energy_raises feq.simps simp_thms)

end
